theory Spec2Isabelle
  imports Main "HOL-Library.List_Lexorder" "HOL-Library.Char_ord"
begin

section \<open>Paths and file names\<close>

text \<open>
  Python \<^verbatim>\<open>str\<close> values are modelled as \<^typ>\<open>string\<close>: the UTF-8 bytes of the text.
  Python compares strings by code point, and the byte-wise lexicographic order of UTF-8
  is the code-point order, so \<^verbatim>\<open>sorted\<close> of a list of names is \<^term>\<open>sort\<close> on
  \<^typ>\<open>string list\<close>.
\<close>

type_synonym path = string

text \<open>
  A \<^verbatim>\<open>str\<close> may hold a lone surrogate, a code point from U+D800 to U+DFFF (the JSON
  text \<^verbatim>\<open>"\ud800"\<close> is read as one), which UTF-8 cannot encode. The model gives it
  the three bytes that the byte scheme of UTF-8 assigns to its code point: \<open>0xED\<close>, a
  byte from \<open>0xA0\<close> to \<open>0xBF\<close>, and a third byte. No encodable text has \<open>0xED\<close>
  followed by such a byte.
\<close>

fun has_surrogate :: "string \<Rightarrow> bool" where
  "has_surrogate (a # b # cs) =
     (a = CHR 0xED \<and> CHR 0xA0 \<le> b \<and> b \<le> CHR 0xBF \<or> has_surrogate (b # cs))"
| "has_surrogate cs = False"

text \<open>Whether \<^verbatim>\<open>s.encode("utf-8")\<close> returns; otherwise it raises \<^verbatim>\<open>UnicodeEncodeError\<close>.\<close>

definition utf8_encodable :: "string \<Rightarrow> bool" where
  "utf8_encodable s = (\<not> has_surrogate s)"

text \<open>\<^verbatim>\<open>os.path.join(a, b)\<close> (POSIX) for two components.\<close>

definition path_join :: "path \<Rightarrow> path \<Rightarrow> path" where
  "path_join a b =
     (if b \<noteq> [] \<and> hd b = CHR ''/'' then b
      else if a = [] \<or> last a = CHR ''/'' then a @ b
      else a @ CHR ''/'' # b)"

text \<open>\<^verbatim>\<open>os.path.basename(p)\<close> (POSIX): what follows the last slash.\<close>

definition basename :: "path \<Rightarrow> string" where
  "basename p = rev (takeWhile (\<lambda>c. c \<noteq> CHR ''/'') (rev p))"

text \<open>\<^verbatim>\<open>s.endswith(suf)\<close>.\<close>

definition endswith :: "string \<Rightarrow> string \<Rightarrow> bool" where
  "endswith s suf = (length suf \<le> length s \<and> drop (length s - length suf) s = suf)"

section \<open>The splitter (\<^verbatim>\<open>split_pdf.py\<close>)\<close>

text \<open>The decimal digit of a number below ten, as a character.\<close>

definition digit :: "nat \<Rightarrow> char" where
  "digit d = char_of (48 + d)"

text \<open>\<^verbatim>\<open>str(n)\<close> for a non-negative integer: its decimal digits.\<close>

fun dec :: "nat \<Rightarrow> string" where
  "dec n = (if n < 10 then [digit n] else dec (n div 10) @ [digit (n mod 10)])"

declare dec.simps [simp del]

text \<open>
  \<^verbatim>\<open>f"{n:03d}"\<close>: the decimal digits, padded on the left with zeros up to a width of
  three. The width is a minimum: a number of four digits or more is not cut.
\<close>

definition pad3 :: "nat \<Rightarrow> string" where
  "pad3 n = replicate (3 - length (dec n)) (CHR ''0'') @ dec n"

text \<open>
  The number that a string of decimal digits denotes; zeros on the left count for
  nothing. It reads a numeric suffix back.
\<close>

definition digits_value :: "string \<Rightarrow> nat" where
  "digits_value s = foldl (\<lambda>acc c. 10 * acc + (of_char c - 48)) 0 s"

text \<open>
  \<^verbatim>\<open>f"page_{i+1:03d}.pdf"\<close> for the 0-based index \<open>i\<close> that \<^verbatim>\<open>enumerate\<close>
  gives to a page.
\<close>

definition page_name :: "nat \<Rightarrow> string" where
  "page_name i = ''page_'' @ pad3 (i + 1) @ ''.pdf''"

text \<open>
  The file system of the splitter: the directories that exist and the PDF files, each a
  list of pages. A page is a value of any type \<open>'p\<close>. Input and output errors of the
  operating system (permissions, a full disk) are outside the model.
\<close>

record 'p pdf_fs =
  dirs :: "path set"
  pdfs :: "path \<rightharpoonup> 'p list"

text \<open>
  The loop of \<^verbatim>\<open>split_pdf\<close>: \<^verbatim>\<open>for i, page in enumerate(reader.pages)\<close> writes a new
  one-page document to \<^verbatim>\<open>os.path.join(output_dir, f"page_{i+1:03d}.pdf")\<close>, replacing
  a file of that name.
\<close>

fun split_loop :: "path \<Rightarrow> nat \<Rightarrow> 'p list \<Rightarrow> (path \<rightharpoonup> 'p list) \<Rightarrow> (path \<rightharpoonup> 'p list)" where
  "split_loop output_dir i [] fs = fs"
| "split_loop output_dir i (page # pages) fs =
     split_loop output_dir (i + 1) pages (fs(path_join output_dir (page_name i) \<mapsto> [page]))"

text \<open>
  \<^verbatim>\<open>split_pdf(input_pdf_path, output_dir)\<close>, given the pages that \<^verbatim>\<open>PdfReader\<close> reads
  from the input: \<^verbatim>\<open>os.makedirs(output_dir, exist_ok=True)\<close>, the loop, and the page
  count as the result. The progress messages on the standard output are left out.
\<close>

definition split_pdf :: "'p list \<Rightarrow> path \<Rightarrow> 'p pdf_fs \<Rightarrow> nat \<times> 'p pdf_fs" where
  "split_pdf reader_pages output_dir st =
     (let st1 = st\<lparr>dirs := insert output_dir (dirs st)\<rparr>;
          total_pages = length reader_pages
      in (total_pages, st1\<lparr>pdfs := split_loop output_dir 0 reader_pages (pdfs st1)\<rparr>))"

section \<open>The merger (\<^verbatim>\<open>merge_ocr_results.py\<close>)\<close>

text \<open>
  The text files of a directory tree: a path has a content or is absent. The content is
  what \<^verbatim>\<open>f.read()\<close> returns and what \<^verbatim>\<open>f.writelines\<close> is given.
\<close>

type_synonym text_fs = "path \<rightharpoonup> string"

text \<open>The messages that the merger prints, one constructor for each \<^verbatim>\<open>print\<close>.\<close>

datatype merge_msg =
    MsgNoTextFiles path
  | MsgFound nat
  | MsgMerging
  | MsgMergingClean
  | MsgProgress nat nat
  | MsgDone
  | MsgOutFile path
  | MsgTotal nat

text \<open>The merger catches nothing: a file of the listing that cannot be opened ends the run.\<close>

datatype merge_error = FileNotFoundError path

definition newline :: char where
  "newline = CHR 0x0A"

text \<open>\<^verbatim>\<open>'='*60\<close>.\<close>

definition ruler :: string where
  "ruler = replicate 60 (CHR ''='')"

text \<open>
  The banner line of the annotated mode: a page emoji, a space, the two characters of
  the Chinese word for file, a colon, a space (in UTF-8), the file name and a newline.
\<close>

definition banner :: "string \<Rightarrow> string" where
  "banner txt_file =
     [CHR 0xF0, CHR 0x9F, CHR 0x93, CHR 0x84, CHR 0x20,
      CHR 0xE6, CHR 0x96, CHR 0x87, CHR 0xE4, CHR 0xBB, CHR 0xB6, CHR 0x3A, CHR 0x20]
     @ txt_file @ [newline]"

text \<open>
  The loop of \<^verbatim>\<open>merge_ocr_results\<close> over \<^verbatim>\<open>enumerate(txt_files, start=1)\<close>: it reads
  each file, appends the three separator lines and the content to \<^verbatim>\<open>all_text\<close>, and
  prints the progress at every fiftieth file and at the last one.
\<close>

fun merge_loop ::
  "path \<Rightarrow> text_fs \<Rightarrow> nat \<Rightarrow> (nat \<times> string) list \<Rightarrow> string list \<times> merge_msg list
     \<Rightarrow> merge_error + string list \<times> merge_msg list" where
  "merge_loop input_dir fs total_files [] acc = Inr acc"
| "merge_loop input_dir fs total_files ((idx, txt_file) # rest) (all_text, printed) =
     (case fs (path_join input_dir txt_file) of
        None \<Rightarrow> Inl (FileNotFoundError (path_join input_dir txt_file))
      | Some content \<Rightarrow>
          merge_loop input_dir fs total_files rest
            (all_text @ [newline # ruler @ [newline], banner txt_file, ruler @ [newline], content],
             printed @ (if idx mod 50 = 0 \<or> idx = total_files then [MsgProgress idx total_files] else [])))"

text \<open>
  \<^verbatim>\<open>merge_ocr_results(input_dir, output_file)\<close>, given \<^verbatim>\<open>os.listdir(input_dir)\<close>. The
  result is what was printed and the file system after the run.
\<close>

definition merge_ocr_results ::
  "path \<Rightarrow> path \<Rightarrow> string list \<Rightarrow> text_fs \<Rightarrow> merge_error + merge_msg list \<times> text_fs" where
  "merge_ocr_results input_dir output_file listing fs =
     (let txt_files = sort (filter (\<lambda>f. endswith f ''.txt'') listing) in
      if txt_files = [] then Inr ([MsgNoTextFiles input_dir], fs)
      else
        case merge_loop input_dir fs (length txt_files) (enumerate 1 txt_files)
               ([], [MsgFound (length txt_files), MsgMerging]) of
          Inl e \<Rightarrow> Inl e
        | Inr (all_text, printed) \<Rightarrow>
            Inr (printed @ [MsgDone, MsgOutFile output_file, MsgTotal (length txt_files)],
                 fs(output_file \<mapsto> concat all_text)))"

text \<open>
  The loop of \<^verbatim>\<open>merge_ocr_results_clean\<close>: the content of each file and two newlines.
\<close>

fun merge_loop_clean ::
  "path \<Rightarrow> text_fs \<Rightarrow> string list \<Rightarrow> string list \<Rightarrow> merge_error + string list" where
  "merge_loop_clean input_dir fs [] all_text = Inr all_text"
| "merge_loop_clean input_dir fs (txt_file # rest) all_text =
     (case fs (path_join input_dir txt_file) of
        None \<Rightarrow> Inl (FileNotFoundError (path_join input_dir txt_file))
      | Some content \<Rightarrow>
          merge_loop_clean input_dir fs rest (all_text @ [content, [newline, newline]]))"

definition merge_ocr_results_clean ::
  "path \<Rightarrow> path \<Rightarrow> string list \<Rightarrow> text_fs \<Rightarrow> merge_error + merge_msg list \<times> text_fs" where
  "merge_ocr_results_clean input_dir output_file listing fs =
     (let txt_files = sort (filter (\<lambda>f. endswith f ''.txt'') listing) in
      if txt_files = [] then Inr ([MsgNoTextFiles input_dir], fs)
      else
        case merge_loop_clean input_dir fs txt_files [] of
          Inl e \<Rightarrow> Inl e
        | Inr all_text \<Rightarrow>
            Inr ([MsgFound (length txt_files), MsgMergingClean,
                  MsgDone, MsgOutFile output_file, MsgTotal (length txt_files)],
                 fs(output_file \<mapsto> concat all_text)))"

section \<open>The batch OCR driver (\<^verbatim>\<open>batch_ocr.py\<close>)\<close>

subsection \<open>Responses of the OCR service\<close>

text \<open>
  What \<^verbatim>\<open>response.json()\<close> can return: any JSON value. An object is an association
  list read with \<^term>\<open>map_of\<close>. JSON numbers with a fraction are left out: the exit code
  of the service is an integer.
\<close>

datatype json =
    JNull
  | JBool bool
  | JInt int
  | JStr string
  | JList "json list"
  | JDict "(string \<times> json) list"

text \<open>The exceptions that the driver meets.\<close>

datatype py_exc =
    Timeout
  | KeyError
  | IndexError
  | TypeError
  | UnicodeEncodeError
  | OtherException string

text \<open>
  What one \<^verbatim>\<open>requests.post\<close> does: it raises \<^verbatim>\<open>requests.exceptions.Timeout\<close>, it
  raises another exception (a connection error), or it returns a response whose body is
  JSON or is not.
\<close>

datatype http_outcome =
    RaisesTimeout
  | RaisesOther string
  | JsonBody json
  | RawBody string

text \<open>
  The service, as the driver sees it: the outcome of the network call number \<open>n\<close>
  (counted from 0 over the life of the world) for the file at a path.
\<close>

type_synonym api = "nat \<Rightarrow> path \<Rightarrow> http_outcome"

text \<open>
  The error message of a failed attempt: a value taken from the response, the default
  text for an unknown error, or the text for a response that is not an object.
\<close>

datatype error_msg = FromResponse json | UnknownError | FormatError

text \<open>
  The lines of the log, one constructor for each \<^verbatim>\<open>self.log\<close> of the source, in the
  order of the source. The time stamp of a line is left out.
\<close>

datatype log_event =
    LogSkip string
  | LogAttempt nat int string
  | LogSuccess string
  | LogFailed string error_msg
  | LogWait nat
  | LogTimeout string
  | LogException string py_exc
  | LogFinalFail string
  | LogNoPdf path
  | LogStart nat
  | LogRule
  | LogProgress nat nat
  | LogDone
  | LogSummarySuccess nat nat
  | LogSummaryFailed nat nat
  | LogSavedIn path

text \<open>A \<^verbatim>\<open>time.sleep\<close>: a number of seconds, or the configured \<^verbatim>\<open>self.sleep_time\<close>.\<close>

datatype pause = Seconds nat | SleepTime

text \<open>
  The fields of \<^verbatim>\<open>OCRProcessor\<close> that decide the control flow. \<^verbatim>\<open>MAX_RETRIES\<close> is
  any integer of the environment.
\<close>

record config =
  max_retries :: int
  output_dir :: path

text \<open>
  The world of the driver: the text files, the log (the file \<^verbatim>\<open>ocr.log\<close> and the
  standard output), the network calls made so far (the path sent with each) and the
  pauses taken.
\<close>

record world =
  texts :: "path \<rightharpoonup> string"
  logged :: "log_event list"
  calls :: "path list"
  sleeps :: "pause list"

definition log :: "log_event \<Rightarrow> world \<Rightarrow> world" where
  "log message w = w\<lparr>logged := logged w @ [message]\<rparr>"

definition sleep :: "pause \<Rightarrow> world \<Rightarrow> world" where
  "sleep d w = w\<lparr>sleeps := sleeps w @ [d]\<rparr>"

subsection \<open>Reading a response\<close>

text \<open>\<^verbatim>\<open>isinstance(x, dict)\<close>.\<close>

fun is_dict :: "json \<Rightarrow> bool" where
  "is_dict (JDict kv) = True"
| "is_dict _ = False"

text \<open>\<^verbatim>\<open>x.get(k)\<close> on an object: \<^term>\<open>None\<close> stands for Python's \<^verbatim>\<open>None\<close>.\<close>

fun dict_get :: "json \<Rightarrow> string \<Rightarrow> json option" where
  "dict_get (JDict kv) k = map_of kv k"
| "dict_get _ k = None"

text \<open>\<^verbatim>\<open>v == 1\<close>: Python holds \<^verbatim>\<open>True == 1\<close>.\<close>

fun py_eq_1 :: "json option \<Rightarrow> bool" where
  "py_eq_1 (Some (JInt i)) = (i = 1)"
| "py_eq_1 (Some (JBool b)) = b"
| "py_eq_1 _ = False"

text \<open>\<^verbatim>\<open>x[k]\<close> for a string key \<open>k\<close>.\<close>

fun getitem_key :: "json \<Rightarrow> string \<Rightarrow> py_exc + json" where
  "getitem_key (JDict kv) k = (case map_of kv k of None \<Rightarrow> Inl KeyError | Some v \<Rightarrow> Inr v)"
| "getitem_key _ k = Inl TypeError"

text \<open>
  \<^verbatim>\<open>x[0]\<close>: the first element of a list or the first character of a string; an object
  of JSON has no key \<open>0\<close>, and the other values cannot be indexed.
\<close>

fun getitem_0 :: "json \<Rightarrow> py_exc + json" where
  "getitem_0 (JList []) = Inl IndexError"
| "getitem_0 (JList (v # vs)) = Inr v"
| "getitem_0 (JStr []) = Inl IndexError"
| "getitem_0 (JStr (c # cs)) = Inr (JStr [c])"
| "getitem_0 (JDict kv) = Inl KeyError"
| "getitem_0 _ = Inl TypeError"

text \<open>\<^verbatim>\<open>result["ParsedResults"][0]["ParsedText"]\<close>.\<close>

definition parsed_text :: "json \<Rightarrow> py_exc + json" where
  "parsed_text result =
     (case getitem_key result ''ParsedResults'' of
        Inl e \<Rightarrow> Inl e
      | Inr parsed_results \<Rightarrow>
          (case getitem_0 parsed_results of
             Inl e \<Rightarrow> Inl e
           | Inr first \<Rightarrow> getitem_key first ''ParsedText''))"

text \<open>
  \<^verbatim>\<open>result.get("ErrorMessage", result.get("error", <unknown error>))\<close> for an object, and
  the text about the format for any other value.
\<close>

definition error_message :: "json \<Rightarrow> error_msg" where
  "error_message result =
     (if is_dict result then
        (case dict_get result ''ErrorMessage'' of
           Some v \<Rightarrow> FromResponse v
         | None \<Rightarrow>
             (case dict_get result ''error'' of
                Some v \<Rightarrow> FromResponse v
              | None \<Rightarrow> UnknownError))
      else FormatError)"

subsection \<open>One page\<close>

text \<open>
  \<^verbatim>\<open>ocr_single_pdf\<close>: one network call. An exception of \<^verbatim>\<open>requests.post\<close> goes up
  to the caller; a body that is not JSON becomes the object with the keys \<^verbatim>\<open>error\<close>
  and \<^verbatim>\<open>text\<close>. The page file is read without error: it was listed by the batch run.
\<close>

definition ocr_single_pdf :: "api \<Rightarrow> path \<Rightarrow> world \<Rightarrow> (py_exc + json) \<times> world" where
  "ocr_single_pdf service pdf_path w =
     (let w1 = w\<lparr>calls := calls w @ [pdf_path]\<rparr> in
      case service (length (calls w)) pdf_path of
        RaisesTimeout \<Rightarrow> (Inl Timeout, w1)
      | RaisesOther m \<Rightarrow> (Inl (OtherException m), w1)
      | JsonBody j \<Rightarrow> (Inr j, w1)
      | RawBody t \<Rightarrow>
          (Inr (JDict [(''error'', JStr ''Invalid JSON response''), (''text'', JStr t)]), w1))"

text \<open>
  \<^verbatim>\<open>with open(txt_path, "w", encoding="utf-8") as f: f.write(text)\<close>. Opening creates
  the file, or empties it. Then \<^verbatim>\<open>f.write\<close> raises \<^verbatim>\<open>TypeError\<close> on a value that is
  not a string, and \<^verbatim>\<open>UnicodeEncodeError\<close> on a string that UTF-8 cannot encode; in
  both cases nothing is written and the file stays as the opening left it.
\<close>

definition write_text :: "path \<Rightarrow> json \<Rightarrow> world \<Rightarrow> (py_exc + unit) \<times> world" where
  "write_text txt_path text w =
     (let w1 = w\<lparr>texts := (texts w)(txt_path \<mapsto> [])\<rparr> in
      case text of
        JStr s \<Rightarrow>
          if utf8_encodable s then (Inr (), w1\<lparr>texts := (texts w1)(txt_path \<mapsto> s)\<rparr>)
          else (Inl UnicodeEncodeError, w1)
      | _ \<Rightarrow> (Inl TypeError, w1))"

text \<open>
  The body of the \<^verbatim>\<open>try\<close> for the attempt \<open>retry\<close>. The result is \<open>Inr True\<close>
  when the body returns \<^verbatim>\<open>True\<close>, \<open>Inr False\<close> when it reaches its end (the loop
  goes on), and \<open>Inl e\<close> when it raises \<open>e\<close>.
\<close>

definition try_body ::
  "config \<Rightarrow> api \<Rightarrow> path \<Rightarrow> path \<Rightarrow> nat \<Rightarrow> world \<Rightarrow> (py_exc + bool) \<times> world" where
  "try_body cfg service pdf_path txt_path retry w =
     (let filename = basename pdf_path;
          w1 = log (LogAttempt (retry + 1) (max_retries cfg) filename) w
      in case ocr_single_pdf service pdf_path w1 of
           (Inl e, w2) \<Rightarrow> (Inl e, w2)
         | (Inr result, w2) \<Rightarrow>
             if is_dict result \<and> py_eq_1 (dict_get result ''OCRExitCode'') then
               (case parsed_text result of
                  Inl e \<Rightarrow> (Inl e, w2)
                | Inr text \<Rightarrow>
                    (case write_text txt_path text w2 of
                       (Inl e, w3) \<Rightarrow> (Inl e, w3)
                     | (Inr u, w3) \<Rightarrow> (Inr True, log (LogSuccess filename) w3)))
             else
               (let w3 = log (LogFailed filename (error_message result)) w2;
                    wait_time = (retry + 1) * 2
                in (Inr False,
                    if int retry < max_retries cfg - 1
                    then sleep (Seconds wait_time) (log (LogWait wait_time) w3)
                    else w3)))"

text \<open>
  One round of the loop: the body and the two handlers. The result is \<^term>\<open>True\<close> when
  the function has returned \<^verbatim>\<open>True\<close>.
\<close>

definition attempt ::
  "config \<Rightarrow> api \<Rightarrow> path \<Rightarrow> path \<Rightarrow> nat \<Rightarrow> world \<Rightarrow> bool \<times> world" where
  "attempt cfg service pdf_path txt_path retry w =
     (let filename = basename pdf_path in
      case try_body cfg service pdf_path txt_path retry w of
        (Inr returned, w1) \<Rightarrow> (returned, w1)
      | (Inl e, w1) \<Rightarrow>
          (let w2 = (if e = Timeout then log (LogTimeout filename) w1
                     else log (LogException filename e) w1)
           in (False, if int retry < max_retries cfg - 1 then sleep (Seconds 5) w2 else w2)))"

text \<open>
  \<^verbatim>\<open>for retry in range(self.max_retries)\<close>, over the list of the values of \<open>retry\<close>
  still to come, and the two lines after the loop.
\<close>

fun retry_loop ::
  "config \<Rightarrow> api \<Rightarrow> path \<Rightarrow> path \<Rightarrow> nat list \<Rightarrow> world \<Rightarrow> bool \<times> world" where
  "retry_loop cfg service pdf_path txt_path [] w =
     (False, log (LogFinalFail (basename pdf_path)) w)"
| "retry_loop cfg service pdf_path txt_path (retry # rest) w =
     (case attempt cfg service pdf_path txt_path retry w of
        (True, w1) \<Rightarrow> (True, w1)
      | (False, w1) \<Rightarrow> retry_loop cfg service pdf_path txt_path rest w1)"

text \<open>
  \<^verbatim>\<open>process_single_file\<close>. \<^verbatim>\<open>os.path.exists(txt_path)\<close> asks whether the text file is
  there; \<^verbatim>\<open>range(n)\<close> is empty for \<open>n \<le> 0\<close>.
\<close>

definition process_single_file ::
  "config \<Rightarrow> api \<Rightarrow> path \<Rightarrow> path \<Rightarrow> world \<Rightarrow> bool \<times> world" where
  "process_single_file cfg service pdf_path txt_path w =
     (if texts w txt_path \<noteq> None then (True, log (LogSkip (basename pdf_path)) w)
      else retry_loop cfg service pdf_path txt_path [0..<nat (max_retries cfg)] w)"

subsection \<open>The batch\<close>

text \<open>
  The loop of \<^verbatim>\<open>batch_process\<close> over \<^verbatim>\<open>enumerate(pdf_files, start=1)\<close>, with the two
  counters and the world as its state.
\<close>

fun batch_loop ::
  "config \<Rightarrow> api \<Rightarrow> path \<Rightarrow> nat \<Rightarrow> (nat \<times> string) list \<Rightarrow> nat \<times> nat \<times> world
     \<Rightarrow> nat \<times> nat \<times> world" where
  "batch_loop cfg service pdf_dir total_files [] acc = acc"
| "batch_loop cfg service pdf_dir total_files ((idx, pdf_file) # rest)
       (success_count, failed_count, w) =
     (let pdf_path = path_join pdf_dir pdf_file;
          txt_path = path_join (output_dir cfg) (pdf_file @ ''.txt'');
          w1 = log (LogProgress idx total_files) w;
          (success, w2) = process_single_file cfg service pdf_path txt_path w1;
          w3 = (if idx < total_files then sleep SleepTime w2 else w2)
      in batch_loop cfg service pdf_dir total_files rest
           (if success then (success_count + 1, failed_count, w3)
            else (success_count, failed_count + 1, w3)))"

text \<open>\<^verbatim>\<open>batch_process(pdf_dir)\<close>, given \<^verbatim>\<open>os.listdir(pdf_dir)\<close>.\<close>

definition batch_process :: "config \<Rightarrow> api \<Rightarrow> path \<Rightarrow> string list \<Rightarrow> world \<Rightarrow> world" where
  "batch_process cfg service pdf_dir listing w =
     (let pdf_files = sort (filter (\<lambda>f. endswith f ''.pdf'') listing) in
      if pdf_files = [] then log (LogNoPdf pdf_dir) w
      else
        (let total_files = length pdf_files;
             w1 = log LogRule (log (LogStart total_files) w);
             (success_count, failed_count, w2) =
               batch_loop cfg service pdf_dir total_files (enumerate 1 pdf_files) (0, 0, w1)
         in log (LogSavedIn (output_dir cfg))
              (log (LogSummaryFailed failed_count total_files)
                (log (LogSummarySuccess success_count total_files)
                  (log LogDone (log LogRule w2))))))"

section \<open>The words of the specification about a response\<close>

text \<open>
  The specification speaks of a response that indicates the engine-level success code
  and of its parsed-text payloads. These definitions follow its words, to be compared
  with what the driver computes. The payloads are the entries of the list under
  \<^verbatim>\<open>ParsedResults\<close>; a payload carries text when it is an object whose
  \<^verbatim>\<open>ParsedText\<close> is a string; the payload that the driver extracts is the first.
\<close>

definition success_code :: "json \<Rightarrow> bool" where
  "success_code r =
     (case r of
        JDict kv \<Rightarrow>
          (case map_of kv ''OCRExitCode'' of
             Some (JInt i) \<Rightarrow> i = 1
           | Some (JBool b) \<Rightarrow> b
           | _ \<Rightarrow> False)
      | _ \<Rightarrow> False)"

definition parsed_payloads :: "json \<Rightarrow> json list" where
  "parsed_payloads r =
     (case r of
        JDict kv \<Rightarrow> (case map_of kv ''ParsedResults'' of Some (JList ps) \<Rightarrow> ps | _ \<Rightarrow> [])
      | _ \<Rightarrow> [])"

definition payload_text :: "json \<Rightarrow> string option" where
  "payload_text p =
     (case p of
        JDict kv \<Rightarrow> (case map_of kv ''ParsedText'' of Some (JStr t) \<Rightarrow> Some t | _ \<Rightarrow> None)
      | _ \<Rightarrow> None)"

definition first_payload_text :: "json \<Rightarrow> string option" where
  "first_payload_text r = (case parsed_payloads r of [] \<Rightarrow> None | p # ps \<Rightarrow> payload_text p)"

text \<open>
  The success condition in the words of the specification: the response contains at
  least one parsed-text payload, whichever its place in the list.
\<close>

definition has_text_payload :: "json \<Rightarrow> bool" where
  "has_text_payload r = list_ex (\<lambda>p. payload_text p \<noteq> None) (parsed_payloads r)"

text \<open>
  A network call succeeds when its body is JSON with the success code and a first
  payload that carries a text that UTF-8 can encode; a call that does not succeed fails.
\<close>

definition api_succeeds :: "http_outcome \<Rightarrow> bool" where
  "api_succeeds outcome =
     (case outcome of
        JsonBody r \<Rightarrow>
          success_code r
          \<and> (case first_payload_text r of None \<Rightarrow> False | Some t \<Rightarrow> utf8_encodable t)
      | _ \<Rightarrow> False)"

text \<open>
  A network call that fails before the driver opens the text file: an exception, a body
  without the success code, or a body with the success code from which no value of
  \<^verbatim>\<open>ParsedText\<close> can be read.
\<close>

definition fails_before_write :: "http_outcome \<Rightarrow> bool" where
  "fails_before_write outcome =
     (case outcome of
        JsonBody r \<Rightarrow> \<not> success_code r \<or> isl (parsed_text r)
      | _ \<Rightarrow> True)"

section \<open>Example inputs\<close>

definition empty_world :: world where
  "empty_world = \<lparr>texts = Map.empty, logged = [], calls = [], sleeps = []\<rparr>"

text \<open>The defaults of the source: three attempts, the directory \<^verbatim>\<open>ocr_text\<close>.\<close>

definition default_config :: config where
  "default_config = \<lparr>max_retries = 3, output_dir = ''ocr_text''\<rparr>"

text \<open>A response of the service with the success code and one payload with the text \<open>t\<close>.\<close>

definition ok_response :: "string \<Rightarrow> json" where
  "ok_response t =
     JDict [(''OCRExitCode'', JInt 1), (''ParsedResults'', JList [JDict [(''ParsedText'', JStr t)]])]"

text \<open>The success code with an empty list of payloads.\<close>

definition empty_list_response :: json where
  "empty_list_response = JDict [(''OCRExitCode'', JInt 1), (''ParsedResults'', JList [])]"

text \<open>The success code with one payload whose text is \<^verbatim>\<open>null\<close>.\<close>

definition null_text_response :: json where
  "null_text_response =
     JDict [(''OCRExitCode'', JInt 1), (''ParsedResults'', JList [JDict [(''ParsedText'', JNull)]])]"

text \<open>
  The success code with two payloads, of which only the second carries text:
  \<^verbatim>\<open>{"OCRExitCode": 1, "ParsedResults": [{}, {"ParsedText": "x"}]}\<close>.
\<close>

definition second_payload_response :: json where
  "second_payload_response =
     JDict [(''OCRExitCode'', JInt 1),
            (''ParsedResults'', JList [JDict [], JDict [(''ParsedText'', JStr ''x'')]])]"

text \<open>
  The success code with one payload whose text is a lone surrogate:
  \<^verbatim>\<open>{"OCRExitCode": 1, "ParsedResults": [{"ParsedText": "\ud800"}]}\<close>.
\<close>

definition surrogate_response :: json where
  "surrogate_response =
     JDict [(''OCRExitCode'', JInt 1),
            (''ParsedResults'',
             JList [JDict [(''ParsedText'', JStr [CHR 0xED, CHR 0xA0, CHR 0x80])]])]"

text \<open>The services that always answer with one of these two.\<close>

definition second_payload_service :: api where
  "second_payload_service n p = JsonBody second_payload_response"

definition surrogate_service :: api where
  "surrogate_service n p = JsonBody surrogate_response"

text \<open>A service that recognises \<open>hi\<close> at once.\<close>

definition ok_service :: api where
  "ok_service n p = JsonBody (ok_response ''hi'')"

text \<open>A service that times out on its first two calls and then recognises \<open>hi\<close>.\<close>

definition flaky_service :: api where
  "flaky_service n p = (if n < 2 then RaisesTimeout else JsonBody (ok_response ''hi''))"

text \<open>A service that is down for its first three calls, a whole run of one page.\<close>

definition recovering_service :: api where
  "recovering_service n p = (if n < 3 then RaisesTimeout else JsonBody (ok_response ''hi''))"

text \<open>A service that always answers with the null text, and one with the empty list.\<close>

definition null_text_service :: api where
  "null_text_service n p = JsonBody null_text_response"

definition empty_list_service :: api where
  "empty_list_service n p = JsonBody empty_list_response"

text \<open>A service that never answers in time.\<close>

definition down_service :: api where
  "down_service n p = RaisesTimeout"

text \<open>A world in which the first page of two has its text file already.\<close>

definition one_done_world :: world where
  "one_done_world =
     \<lparr>texts = [''ocr_text/page_001.pdf.txt'' \<mapsto> ''done''], logged = [], calls = [], sleeps = []\<rparr>"

text \<open>A service whose body is never JSON.\<close>

definition html_service :: api where
  "html_service n p = RawBody ''<html>''"

section \<open>Properties of the merger and of an empty discovery\<close>

lemma sort_two_pages:
  assumes "set listing = {''page_001.pdf.txt'', ''page_002.pdf.txt''}" and "distinct listing"
  shows "sort (filter (\<lambda>f. endswith f ''.txt'') listing) = [''page_001.pdf.txt'', ''page_002.pdf.txt'']"
proof -
  have all: "\<forall>f\<in>set listing. endswith f ''.txt''"
    using assms(1) by (simp add: endswith_def)
  then have flt: "filter (\<lambda>f. endswith f ''.txt'') listing = listing"
    by simp
  have "sorted (sort listing)" "distinct (sort listing)"
       "set (sort listing) = set [''page_001.pdf.txt'', ''page_002.pdf.txt'']"
    using assms by simp_all
  moreover have "sorted [''page_001.pdf.txt'', ''page_002.pdf.txt'']"
    by simp
  moreover have "distinct [''page_001.pdf.txt'', ''page_002.pdf.txt'']"
    by simp
  ultimately have "sort listing = [''page_001.pdf.txt'', ''page_002.pdf.txt'']"
    by (metis sorted_distinct_set_unique)
  with flt show ?thesis by simp
qed

lemma no_match_filter:
  "\<forall>f\<in>set listing. \<not> endswith f ext \<Longrightarrow> sort (filter (\<lambda>f. endswith f ext) listing) = []"
  by (simp add: filter_empty_conv)

text \<open>
  The annotated mode on any directory whose text files can all be read: the output is,
  for each text file in sorted order, a newline, a ruler of sixty \<open>=\<close> and a newline,
  then the banner line (the bytes of the emoji and of the label, the name of the file,
  a newline), a ruler line, and the content of the file.
\<close>

lemma merge_loop_annotated:
  assumes "\<forall>f\<in>set (map snd items). fs (path_join input_dir f) \<noteq> None"
  shows "\<exists>printed'. merge_loop input_dir fs n items (all_text, printed) =
           Inr (all_text @ concat (map (\<lambda>(idx, f).
                  [newline # ruler @ [newline], banner f, ruler @ [newline],
                   the (fs (path_join input_dir f))]) items),
                printed')"
  using assms
proof (induction items arbitrary: all_text printed)
  case Nil
  show ?case by simp
next
  case (Cons it items)
  obtain idx f where it: "it = (idx, f)" by (cases it)
  from Cons.prems it obtain content where c: "fs (path_join input_dir f) = Some content"
    by auto
  define printed1 where
    "printed1 = printed @ (if idx mod 50 = 0 \<or> idx = n then [MsgProgress idx n] else [])"
  have step: "merge_loop input_dir fs n (it # items) (all_text, printed) =
      merge_loop input_dir fs n items
        (all_text @ [newline # ruler @ [newline], banner f, ruler @ [newline], content], printed1)"
    by (simp add: it c printed1_def split del: if_split)
  have "\<forall>f\<in>set (map snd items). fs (path_join input_dir f) \<noteq> None"
    using Cons.prems by simp
  from Cons.IH [OF this,
      of "all_text @ [newline # ruler @ [newline], banner f, ruler @ [newline], content]" printed1]
  obtain printed' where
    "merge_loop input_dir fs n items
        (all_text @ [newline # ruler @ [newline], banner f, ruler @ [newline], content], printed1) =
     Inr ((all_text @ [newline # ruler @ [newline], banner f, ruler @ [newline], content])
            @ concat (map (\<lambda>(idx, f).
                  [newline # ruler @ [newline], banner f, ruler @ [newline],
                   the (fs (path_join input_dir f))]) items),
          printed')"
    by blast
  then show ?case
    unfolding step by (intro exI [of _ printed']) (simp add: it c)
qed

lemma merge_annotated_layout:
  assumes "sort (filter (\<lambda>f. endswith f ''.txt'') listing) = txt_files"
    and "txt_files \<noteq> []"
    and "\<forall>f\<in>set txt_files. fs (path_join input_dir f) \<noteq> None"
  shows "\<exists>printed. merge_ocr_results input_dir output_file listing fs =
           Inr (printed, fs(output_file \<mapsto> concat (map (\<lambda>f.
             [CHR 0x0A] @ replicate 60 (CHR ''='') @ [CHR 0x0A]
             @ [CHR 0xF0, CHR 0x9F, CHR 0x93, CHR 0x84, CHR 0x20,
                CHR 0xE6, CHR 0x96, CHR 0x87, CHR 0xE4, CHR 0xBB, CHR 0xB6, CHR 0x3A, CHR 0x20]
             @ f @ [CHR 0x0A]
             @ replicate 60 (CHR ''='') @ [CHR 0x0A]
             @ the (fs (path_join input_dir f))) txt_files)))"
proof -
  have "\<forall>f\<in>set (map snd (enumerate 1 txt_files)). fs (path_join input_dir f) \<noteq> None"
    using assms(3) by simp
  from merge_loop_annotated [OF this, of "length txt_files" "[]"
      "[MsgFound (length txt_files), MsgMerging]"]
  obtain printed' where loop:
    "merge_loop input_dir fs (length txt_files) (enumerate 1 txt_files)
       ([], [MsgFound (length txt_files), MsgMerging]) =
     Inr (concat (map (\<lambda>(idx, f).
            [newline # ruler @ [newline], banner f, ruler @ [newline],
             the (fs (path_join input_dir f))]) (enumerate 1 txt_files)),
          printed')"
    by auto
  have pieces: "concat (concat (map (\<lambda>(idx, f).
            [newline # ruler @ [newline], banner f, ruler @ [newline],
             the (fs (path_join input_dir f))]) (enumerate n xs))) =
      concat (map (\<lambda>f.
             [CHR 0x0A] @ replicate 60 (CHR ''='') @ [CHR 0x0A]
             @ [CHR 0xF0, CHR 0x9F, CHR 0x93, CHR 0x84, CHR 0x20,
                CHR 0xE6, CHR 0x96, CHR 0x87, CHR 0xE4, CHR 0xBB, CHR 0xB6, CHR 0x3A, CHR 0x20]
             @ f @ [CHR 0x0A]
             @ replicate 60 (CHR ''='') @ [CHR 0x0A]
             @ the (fs (path_join input_dir f))) xs)" for n xs
    by (induction xs arbitrary: n) (simp_all add: newline_def ruler_def banner_def)
  show ?thesis
    using assms(2) loop
    by (simp add: merge_ocr_results_def assms(1) pieces)
qed

text \<open>
  Claim C7. A directory holds exactly the files \<^verbatim>\<open>page_001.pdf.txt\<close> with the content
  \<open>A\<close> and \<^verbatim>\<open>page_002.pdf.txt\<close> with the content \<open>B\<close>, listed in any order. The
  plain mode writes \<open>A\<close>, two newlines, \<open>B\<close>, two newlines. The annotated mode
  writes, for each of the two files in the same sorted order, a newline, a ruler of sixty
  \<open>=\<close> and a newline, the banner line (the emoji, the label and then the name of the
  file, ended by a newline), a ruler line, and then the content of the file. Every byte
  of both outputs is written out.
\<close>

theorem merge_two_pages:
  assumes "set listing = {''page_001.pdf.txt'', ''page_002.pdf.txt''}"
    and "distinct listing"
    and "fs (path_join input_dir ''page_001.pdf.txt'') = Some ''A''"
    and "fs (path_join input_dir ''page_002.pdf.txt'') = Some ''B''"
  shows "(\<exists>printed. merge_ocr_results_clean input_dir output_file listing fs =
            Inr (printed, fs(output_file \<mapsto>
              [CHR ''A'', CHR 0x0A, CHR 0x0A, CHR ''B'', CHR 0x0A, CHR 0x0A])))
       \<and> (\<exists>printed. merge_ocr_results input_dir output_file listing fs =
            Inr (printed, fs(output_file \<mapsto>
              [CHR 0x0A] @ replicate 60 (CHR ''='') @ [CHR 0x0A]
              @ [CHR 0xF0, CHR 0x9F, CHR 0x93, CHR 0x84, CHR 0x20,
                 CHR 0xE6, CHR 0x96, CHR 0x87, CHR 0xE4, CHR 0xBB, CHR 0xB6, CHR 0x3A, CHR 0x20]
              @ ''page_001.pdf.txt'' @ [CHR 0x0A]
              @ replicate 60 (CHR ''='') @ [CHR 0x0A] @ ''A''
              @ [CHR 0x0A] @ replicate 60 (CHR ''='') @ [CHR 0x0A]
              @ [CHR 0xF0, CHR 0x9F, CHR 0x93, CHR 0x84, CHR 0x20,
                 CHR 0xE6, CHR 0x96, CHR 0x87, CHR 0xE4, CHR 0xBB, CHR 0xB6, CHR 0x3A, CHR 0x20]
              @ ''page_002.pdf.txt'' @ [CHR 0x0A]
              @ replicate 60 (CHR ''='') @ [CHR 0x0A] @ ''B'')))"
  using assms(3,4)
  by (simp add: merge_ocr_results_clean_def merge_ocr_results_def sort_two_pages [OF assms(1,2)]
      newline_def ruler_def banner_def)

theorem merge_two_pages_witness:
  "(\<exists>printed. merge_ocr_results_clean ''ocr_text'' ''final.txt''
        [''page_002.pdf.txt'', ''page_001.pdf.txt'']
        [''ocr_text/page_001.pdf.txt'' \<mapsto> ''A'', ''ocr_text/page_002.pdf.txt'' \<mapsto> ''B''] =
      Inr (printed,
        [''ocr_text/page_001.pdf.txt'' \<mapsto> ''A'', ''ocr_text/page_002.pdf.txt'' \<mapsto> ''B'',
         ''final.txt'' \<mapsto> [CHR ''A'', CHR 0x0A, CHR 0x0A, CHR ''B'', CHR 0x0A, CHR 0x0A]]))
   \<and> (\<exists>printed. merge_ocr_results ''ocr_text'' ''final.txt''
        [''page_002.pdf.txt'', ''page_001.pdf.txt'']
        [''ocr_text/page_001.pdf.txt'' \<mapsto> ''A'', ''ocr_text/page_002.pdf.txt'' \<mapsto> ''B''] =
      Inr (printed,
        [''ocr_text/page_001.pdf.txt'' \<mapsto> ''A'', ''ocr_text/page_002.pdf.txt'' \<mapsto> ''B'',
         ''final.txt'' \<mapsto>
              [CHR 0x0A] @ replicate 60 (CHR ''='') @ [CHR 0x0A]
              @ [CHR 0xF0, CHR 0x9F, CHR 0x93, CHR 0x84, CHR 0x20,
                 CHR 0xE6, CHR 0x96, CHR 0x87, CHR 0xE4, CHR 0xBB, CHR 0xB6, CHR 0x3A, CHR 0x20]
              @ ''page_001.pdf.txt'' @ [CHR 0x0A]
              @ replicate 60 (CHR ''='') @ [CHR 0x0A] @ ''A''
              @ [CHR 0x0A] @ replicate 60 (CHR ''='') @ [CHR 0x0A]
              @ [CHR 0xF0, CHR 0x9F, CHR 0x93, CHR 0x84, CHR 0x20,
                 CHR 0xE6, CHR 0x96, CHR 0x87, CHR 0xE4, CHR 0xBB, CHR 0xB6, CHR 0x3A, CHR 0x20]
              @ ''page_002.pdf.txt'' @ [CHR 0x0A]
              @ replicate 60 (CHR ''='') @ [CHR 0x0A] @ ''B'']))"
proof -
  have l: "set [''page_002.pdf.txt'', ''page_001.pdf.txt''] = {''page_001.pdf.txt'', ''page_002.pdf.txt''}"
    "distinct [''page_002.pdf.txt'', ''page_001.pdf.txt'']"
    by auto
  have f: "[''ocr_text/page_001.pdf.txt'' \<mapsto> ''A'', ''ocr_text/page_002.pdf.txt'' \<mapsto> ''B'']
        (path_join ''ocr_text'' ''page_001.pdf.txt'') = Some ''A''"
    "[''ocr_text/page_001.pdf.txt'' \<mapsto> ''A'', ''ocr_text/page_002.pdf.txt'' \<mapsto> ''B'']
        (path_join ''ocr_text'' ''page_002.pdf.txt'') = Some ''B''"
    by (simp_all add: path_join_def)
  show ?thesis
    by (rule merge_two_pages [OF l f])
qed

text \<open>
  Claim C8. When no name of the listing has the expected extension (the directory may be
  empty), the driver appends the line that no PDF file was found to its log and changes
  nothing else: no text file is written, no network call is made, no pause is taken.
  Both modes of the merger print that no text file was found and leave every file as it
  was. Each of the three returns normally.
\<close>

theorem no_matching_files_reported:
  "((\<forall>f\<in>set listing. \<not> endswith f ''.pdf'') \<longrightarrow>
      batch_process cfg service pdf_dir listing w = w\<lparr>logged := logged w @ [LogNoPdf pdf_dir]\<rparr>)
   \<and> ((\<forall>f\<in>set listing. \<not> endswith f ''.txt'') \<longrightarrow>
      merge_ocr_results input_dir output_file listing fs = Inr ([MsgNoTextFiles input_dir], fs)
      \<and> merge_ocr_results_clean input_dir output_file listing fs = Inr ([MsgNoTextFiles input_dir], fs))"
  by (simp add: batch_process_def merge_ocr_results_def merge_ocr_results_clean_def no_match_filter log_def)

theorem no_matching_files_reported_witness:
  "batch_process \<lparr>max_retries = 3, output_dir = ''ocr_text''\<rparr> (\<lambda>n p. RaisesTimeout) ''pages''
      [''notes.txt'']
      \<lparr>texts = Map.empty, logged = [], calls = [], sleeps = []\<rparr>
     = \<lparr>texts = Map.empty, logged = [LogNoPdf ''pages''], calls = [], sleeps = []\<rparr>
   \<and> merge_ocr_results ''ocr_text'' ''final.txt'' [''page_001.pdf''] Map.empty
     = Inr ([MsgNoTextFiles ''ocr_text''], Map.empty)
   \<and> merge_ocr_results_clean ''ocr_text'' ''final.txt'' [] Map.empty
     = Inr ([MsgNoTextFiles ''ocr_text''], Map.empty)"
  using no_matching_files_reported [where listing = "[''notes.txt'']" and pdf_dir = "''pages''"
      and cfg = "\<lparr>max_retries = 3, output_dir = ''ocr_text''\<rparr>" and service = "\<lambda>n p. RaisesTimeout"
      and w = "\<lparr>texts = Map.empty, logged = [], calls = [], sleeps = []\<rparr>"]
    no_matching_files_reported [where listing = "[''page_001.pdf'']" and input_dir = "''ocr_text''"
      and output_file = "''final.txt''" and fs = Map.empty]
    no_matching_files_reported [where listing = "[]" and input_dir = "''ocr_text''"
      and output_file = "''final.txt''" and fs = Map.empty]
  by (simp add: endswith_def)


section \<open>Properties of one attempt and of the retry loop\<close>

lemma log_simps [simp]:
  "texts (log e w) = texts w" "calls (log e w) = calls w" "sleeps (log e w) = sleeps w"
  "logged (log e w) = logged w @ [e]"
  by (simp_all add: log_def)

lemma sleep_simps [simp]:
  "texts (sleep d w) = texts w" "calls (sleep d w) = calls w" "sleeps (sleep d w) = sleeps w @ [d]"
  "logged (sleep d w) = logged w"
  by (simp_all add: sleep_def)

lemma code_success_iff:
  "(is_dict r \<and> py_eq_1 (dict_get r ''OCRExitCode'')) = success_code r"
proof (cases r)
  case (JDict kv)
  show ?thesis
  proof (cases "map_of kv ''OCRExitCode''")
    case None
    with JDict show ?thesis by (simp add: success_code_def)
  next
    case (Some v)
    with JDict show ?thesis by (cases v) (simp_all add: success_code_def)
  qed
qed (simp_all add: success_code_def)

lemma getitem_key_text:
  "(getitem_key p ''ParsedText'' = Inr (JStr t)) = (payload_text p = Some t)"
proof (cases p)
  case (JDict kv)
  show ?thesis
  proof (cases "map_of kv ''ParsedText''")
    case None
    with JDict show ?thesis by (simp add: payload_text_def)
  next
    case (Some v)
    with JDict show ?thesis by (cases v) (simp_all add: payload_text_def)
  qed
qed (simp_all add: payload_text_def)

lemma getitem_0_cases:
  "getitem_0 v = Inr p \<Longrightarrow> (\<exists>ps. v = JList (p # ps)) \<or> (\<exists>c cs. v = JStr (c # cs) \<and> p = JStr [c])"
  by (cases v rule: getitem_0.cases) simp_all

lemma parsed_text_iff:
  "(parsed_text r = Inr (JStr t)) = (first_payload_text r = Some t)"
proof (cases r)
  case (JDict kv)
  show ?thesis
  proof (cases "map_of kv ''ParsedResults''")
    case None
    with JDict show ?thesis
      by (simp add: parsed_text_def first_payload_text_def parsed_payloads_def)
  next
    case (Some v)
    show ?thesis
    proof (cases v rule: getitem_0.cases)
      case (2 p ps)
      with JDict Some show ?thesis
        by (simp add: parsed_text_def first_payload_text_def parsed_payloads_def getitem_key_text)
    qed (use JDict Some in \<open>simp_all add: parsed_text_def first_payload_text_def parsed_payloads_def\<close>)
  qed
qed (simp_all add: parsed_text_def first_payload_text_def parsed_payloads_def)

lemma attempt_success:
  assumes "service (length (calls w)) pdf_path = JsonBody r"
    and "success_code r" and "first_payload_text r = Some t" and "utf8_encodable t"
  shows "attempt cfg service pdf_path txt_path retry w =
     (True, w\<lparr>texts := (texts w)(txt_path \<mapsto> t),
              logged := logged w @ [LogAttempt (retry + 1) (max_retries cfg) (basename pdf_path),
                                    LogSuccess (basename pdf_path)],
              calls := calls w @ [pdf_path]\<rparr>)"
proof -
  have "parsed_text r = Inr (JStr t)"
    using assms(3) by (simp add: parsed_text_iff)
  then show ?thesis
    using assms(1,2,4)
    by (simp add: attempt_def try_body_def ocr_single_pdf_def write_text_def log_def Let_def
        code_success_iff)
qed

lemma attempt_failure:
  assumes "\<not> api_succeeds (service (length (calls w)) pdf_path)"
  shows "\<exists>w'. attempt cfg service pdf_path txt_path retry w = (False, w')
           \<and> calls w' = calls w @ [pdf_path]
           \<and> (texts w' = texts w \<or> texts w' = (texts w)(txt_path \<mapsto> []))"
proof (cases "service (length (calls w)) pdf_path")
  case RaisesTimeout
  then show ?thesis
    by (simp add: attempt_def try_body_def ocr_single_pdf_def Let_def)
next
  case (RaisesOther m)
  then show ?thesis
    by (simp add: attempt_def try_body_def ocr_single_pdf_def Let_def)
next
  case (RawBody body)
  then show ?thesis
    by (simp add: attempt_def try_body_def ocr_single_pdf_def Let_def)
next
  case (JsonBody r)
  show ?thesis
  proof (cases "success_code r")
    case False
    with JsonBody show ?thesis
      by (simp add: attempt_def try_body_def ocr_single_pdf_def Let_def code_success_iff)
  next
    case True
    note c = True
    from True assms JsonBody have none:
      "first_payload_text r = None \<or> (\<exists>t. first_payload_text r = Some t \<and> \<not> utf8_encodable t)"
      by (cases "first_payload_text r") (simp_all add: api_succeeds_def)
    show ?thesis
    proof (cases "parsed_text r")
      case (Inl e)
      with JsonBody c show ?thesis
        by (simp add: attempt_def try_body_def ocr_single_pdf_def Let_def code_success_iff)
    next
      case (Inr v)
      have "\<And>t. v = JStr t \<Longrightarrow> \<not> utf8_encodable t"
        using none Inr parsed_text_iff [of r] by auto
      then have "\<exists>e. \<forall>w0. write_text txt_path v w0 =
          (Inl e, w0\<lparr>texts := (texts w0)(txt_path \<mapsto> [])\<rparr>)"
        by (cases v) (auto simp: write_text_def)
      then obtain e where "\<And>w0. write_text txt_path v w0 =
          (Inl e, w0\<lparr>texts := (texts w0)(txt_path \<mapsto> [])\<rparr>)"
        by blast
      with JsonBody c Inr show ?thesis
        by (simp add: attempt_def try_body_def ocr_single_pdf_def Let_def code_success_iff)
    qed
  qed
qed

lemma attempt_iff:
  "fst (attempt cfg service pdf_path txt_path retry w) = api_succeeds (service (length (calls w)) pdf_path)"
proof (cases "api_succeeds (service (length (calls w)) pdf_path)")
  case True
  then obtain r t where "service (length (calls w)) pdf_path = JsonBody r" "success_code r"
      "first_payload_text r = Some t" "utf8_encodable t"
    by (auto simp: api_succeeds_def split: http_outcome.splits option.splits)
  then show ?thesis using True by (simp add: attempt_success)
next
  case False
  from attempt_failure [where service = service and w = w and pdf_path = pdf_path
      and cfg = cfg and txt_path = txt_path and retry = retry, OF this] False
  show ?thesis by auto
qed

lemma retry_loop_failures:
  assumes "\<forall>i<length rs. \<not> api_succeeds (service (length (calls w) + i) pdf_path)"
  shows "\<exists>w'. retry_loop cfg service pdf_path txt_path (rs @ rest) w
               = retry_loop cfg service pdf_path txt_path rest w'
           \<and> calls w' = calls w @ replicate (length rs) pdf_path
           \<and> (texts w' = texts w \<or> texts w' = (texts w)(txt_path \<mapsto> []))"
  using assms
proof (induction rs arbitrary: w)
  case Nil
  show ?case by (intro exI [of _ w]) simp
next
  case (Cons r rs)
  from Cons.prems have "\<not> api_succeeds (service (length (calls w)) pdf_path)"
    by auto
  from attempt_failure [where service = service and w = w and pdf_path = pdf_path, OF this]
  obtain w1 where
    a: "attempt cfg service pdf_path txt_path r w = (False, w1)"
    and c1: "calls w1 = calls w @ [pdf_path]"
    and t1: "texts w1 = texts w \<or> texts w1 = (texts w)(txt_path \<mapsto> [])"
    by blast
  have "\<forall>i<length rs. \<not> api_succeeds (service (length (calls w1) + i) pdf_path)"
    using Cons.prems c1 by auto
  from Cons.IH [OF this] obtain w' where
    l: "retry_loop cfg service pdf_path txt_path (rs @ rest) w1
          = retry_loop cfg service pdf_path txt_path rest w'"
    and c': "calls w' = calls w1 @ replicate (length rs) pdf_path"
    and t': "texts w' = texts w1 \<or> texts w' = (texts w1)(txt_path \<mapsto> [])"
    by blast
  have "retry_loop cfg service pdf_path txt_path ((r # rs) @ rest) w
          = retry_loop cfg service pdf_path txt_path rest w'"
    using a l by simp
  moreover have "calls w' = calls w @ replicate (length (r # rs)) pdf_path"
    using c1 c' by (simp add: replicate_append_same)
  moreover have "texts w' = texts w \<or> texts w' = (texts w)(txt_path \<mapsto> [])"
    using t1 t' by auto
  ultimately show ?case by blast
qed

text \<open>
  Claim C4, as amended. A page has no text file yet. The first \<open>K\<close> network calls for it
  fail, with \<open>K\<close> below the configured number of attempts, and the next call succeeds:
  its response has the success code and a first payload with a text that UTF-8 can
  encode. Then \<^const>\<open>process_single_file\<close> returns \<^term>\<open>True\<close> with the success line
  as the last line of the log, it has made exactly \<open>K + 1\<close> network calls, all for this
  page, and the text file holds the text of the first payload of the successful
  response.
\<close>

theorem retries_then_success:
  assumes "texts w txt_path = None"
    and "int K < max_retries cfg"
    and "\<forall>i<K. \<not> api_succeeds (service (length (calls w) + i) pdf_path)"
    and "api_succeeds (service (length (calls w) + K) pdf_path)"
  shows "\<exists>w' r t. process_single_file cfg service pdf_path txt_path w = (True, w')
           \<and> calls w' = calls w @ replicate (K + 1) pdf_path
           \<and> service (length (calls w) + K) pdf_path = JsonBody r
           \<and> first_payload_text r = Some t \<and> utf8_encodable t
           \<and> texts w' = (texts w)(txt_path \<mapsto> t)
           \<and> last (logged w') = LogSuccess (basename pdf_path)"
proof -
  from assms(2) have K: "K < nat (max_retries cfg)" by linarith
  have "[0..<nat (max_retries cfg)] = [0..<K] @ [K..<nat (max_retries cfg)]"
    using K upt_add_eq_append [of 0 K "nat (max_retries cfg) - K"] by simp
  moreover have "[K..<nat (max_retries cfg)] = K # [Suc K..<nat (max_retries cfg)]"
    using K by (rule upt_conv_Cons)
  ultimately have range:
    "[0..<nat (max_retries cfg)] = [0..<K] @ K # [Suc K..<nat (max_retries cfg)]"
    by simp
  have "\<forall>i<length [0..<K]. \<not> api_succeeds (service (length (calls w) + i) pdf_path)"
    using assms(3) by simp
  from retry_loop_failures [where service = service and w = w and pdf_path = pdf_path
      and rs = "[0..<K]" and cfg = cfg and txt_path = txt_path
      and rest = "K # [Suc K..<nat (max_retries cfg)]", OF this]
  obtain w1 where
    l: "retry_loop cfg service pdf_path txt_path ([0..<K] @ K # [Suc K..<nat (max_retries cfg)]) w
          = retry_loop cfg service pdf_path txt_path (K # [Suc K..<nat (max_retries cfg)]) w1"
    and c1: "calls w1 = calls w @ replicate K pdf_path"
    and t1: "texts w1 = texts w \<or> texts w1 = (texts w)(txt_path \<mapsto> [])"
    unfolding length_upt diff_zero by blast
  from assms(4) c1 obtain r t where
    r: "service (length (calls w1)) pdf_path = JsonBody r" "success_code r"
      "first_payload_text r = Some t" "utf8_encodable t"
    by (auto simp: api_succeeds_def split: http_outcome.splits option.splits)
  define w' where "w' = w1\<lparr>texts := (texts w1)(txt_path \<mapsto> t),
      logged := logged w1 @ [LogAttempt (K + 1) (max_retries cfg) (basename pdf_path),
                             LogSuccess (basename pdf_path)],
      calls := calls w1 @ [pdf_path]\<rparr>"
  have a: "attempt cfg service pdf_path txt_path K w1 = (True, w')"
    unfolding w'_def using r by (rule attempt_success)
  have "process_single_file cfg service pdf_path txt_path w = (True, w')"
    using assms(1) range l a by (simp add: process_single_file_def)
  moreover have "calls w' = calls w @ replicate (K + 1) pdf_path"
    using c1 by (simp add: w'_def replicate_append_same)
  moreover have "service (length (calls w) + K) pdf_path = JsonBody r"
    using r(1) c1 by simp
  moreover have "texts w' = (texts w)(txt_path \<mapsto> t)"
    using t1 by (auto simp: w'_def)
  moreover have "last (logged w') = LogSuccess (basename pdf_path)"
    by (simp add: w'_def)
  ultimately show ?thesis using r(3,4) by blast
qed

theorem retries_then_success_witness:
  "\<exists>w'. process_single_file default_config flaky_service ''pages/page_001.pdf''
            ''ocr_text/page_001.pdf.txt'' empty_world = (True, w')
        \<and> calls w' = replicate 3 ''pages/page_001.pdf''
        \<and> texts w' = [''ocr_text/page_001.pdf.txt'' \<mapsto> ''hi'']"
proof -
  have "\<exists>w' r t. process_single_file default_config flaky_service ''pages/page_001.pdf''
            ''ocr_text/page_001.pdf.txt'' empty_world = (True, w')
           \<and> calls w' = calls empty_world @ replicate (2 + 1) ''pages/page_001.pdf''
           \<and> flaky_service (length (calls empty_world) + 2) ''pages/page_001.pdf'' = JsonBody r
           \<and> first_payload_text r = Some t \<and> utf8_encodable t
           \<and> texts w' = (texts empty_world)(''ocr_text/page_001.pdf.txt'' \<mapsto> t)
           \<and> last (logged w') = LogSuccess (basename ''pages/page_001.pdf'')"
    by (rule retries_then_success)
      (simp_all add: empty_world_def default_config_def flaky_service_def api_succeeds_def
        ok_response_def success_code_def first_payload_text_def parsed_payloads_def
        payload_text_def utf8_encodable_def)
  then show ?thesis
    by (auto simp: empty_world_def flaky_service_def ok_response_def first_payload_text_def
        parsed_payloads_def payload_text_def numeral_3_eq_3)
qed


text \<open>
  Claim C2, as amended. An attempt ends with the page succeeded exactly when the network
  call returns a JSON response that indicates the success code and whose first parsed
  result is a payload with a text that UTF-8 can encode. The attempt then writes exactly
  that text to the text file of the page and logs the success. A timeout, another
  exception and a body that is not JSON give no such response.
\<close>

theorem attempt_succeeds_iff:
  "(fst (attempt cfg service pdf_path txt_path retry w)
      \<longleftrightarrow> (\<exists>r t. service (length (calls w)) pdf_path = JsonBody r
                  \<and> success_code r \<and> first_payload_text r = Some t \<and> utf8_encodable t))
   \<and> (\<forall>r t. service (length (calls w)) pdf_path = JsonBody r
            \<and> success_code r \<and> first_payload_text r = Some t \<and> utf8_encodable t \<longrightarrow>
          texts (snd (attempt cfg service pdf_path txt_path retry w)) = (texts w)(txt_path \<mapsto> t)
          \<and> logged (snd (attempt cfg service pdf_path txt_path retry w)) =
              logged w @ [LogAttempt (retry + 1) (max_retries cfg) (basename pdf_path),
                          LogSuccess (basename pdf_path)])"
proof (intro conjI allI impI)
  show "fst (attempt cfg service pdf_path txt_path retry w)
      \<longleftrightarrow> (\<exists>r t. service (length (calls w)) pdf_path = JsonBody r
                  \<and> success_code r \<and> first_payload_text r = Some t \<and> utf8_encodable t)"
    unfolding attempt_iff
    by (auto simp: api_succeeds_def split: http_outcome.splits option.splits)
next
  fix r t
  assume "service (length (calls w)) pdf_path = JsonBody r
            \<and> success_code r \<and> first_payload_text r = Some t \<and> utf8_encodable t"
  then have a: "attempt cfg service pdf_path txt_path retry w =
     (True, w\<lparr>texts := (texts w)(txt_path \<mapsto> t),
              logged := logged w @ [LogAttempt (retry + 1) (max_retries cfg) (basename pdf_path),
                                    LogSuccess (basename pdf_path)],
              calls := calls w @ [pdf_path]\<rparr>)"
    by (simp add: attempt_success)
  show "texts (snd (attempt cfg service pdf_path txt_path retry w)) = (texts w)(txt_path \<mapsto> t)"
    by (simp add: a)
  show "logged (snd (attempt cfg service pdf_path txt_path retry w)) =
              logged w @ [LogAttempt (retry + 1) (max_retries cfg) (basename pdf_path),
                          LogSuccess (basename pdf_path)]"
    by (simp add: a)
qed

theorem attempt_succeeds_iff_witness:
  "fst (attempt default_config ok_service ''pages/page_001.pdf'' ''ocr_text/page_001.pdf.txt'' 0 empty_world)
   \<and> texts (snd (attempt default_config ok_service ''pages/page_001.pdf''
        ''ocr_text/page_001.pdf.txt'' 0 empty_world)) = [''ocr_text/page_001.pdf.txt'' \<mapsto> ''hi'']
   \<and> \<not> fst (attempt default_config empty_list_service ''pages/page_001.pdf''
        ''ocr_text/page_001.pdf.txt'' 0 empty_world)"
  using attempt_succeeds_iff [where cfg = default_config and service = ok_service
      and pdf_path = "''pages/page_001.pdf''" and txt_path = "''ocr_text/page_001.pdf.txt''"
      and retry = 0 and w = empty_world]
    attempt_succeeds_iff [where cfg = default_config and service = empty_list_service
      and pdf_path = "''pages/page_001.pdf''" and txt_path = "''ocr_text/page_001.pdf.txt''"
      and retry = 0 and w = empty_world]
  by (simp add: ok_service_def empty_list_service_def ok_response_def empty_list_response_def
      success_code_def first_payload_text_def parsed_payloads_def payload_text_def empty_world_def
      utf8_encodable_def)

text \<open>
  Claim C6, as amended. A response carries the success code and an empty list of parsed
  results. Reading the first entry raises the index fault, and the handler for any
  exception takes it: the attempt logs the exception, pauses five seconds when another
  attempt is left, and lets the loop go on. The fault does not leave
  \<^const>\<open>process_single_file\<close>, no text file is written, and nothing of the body of the
  response is logged.
\<close>

theorem empty_payload_list_is_caught:
  assumes "service (length (calls w)) pdf_path = JsonBody (JDict kv)"
    and "success_code (JDict kv)"
    and "map_of kv ''ParsedResults'' = Some (JList [])"
  shows "attempt cfg service pdf_path txt_path retry w =
     (False,
      w\<lparr>logged := logged w @ [LogAttempt (retry + 1) (max_retries cfg) (basename pdf_path),
                              LogException (basename pdf_path) IndexError],
        calls := calls w @ [pdf_path],
        sleeps := sleeps w @ (if int retry < max_retries cfg - 1 then [Seconds 5] else [])\<rparr>)"
proof -
  have "parsed_text (JDict kv) = Inl IndexError"
    using assms(3) by (simp add: parsed_text_def)
  moreover have "py_eq_1 (map_of kv ''OCRExitCode'')"
    using assms(2) code_success_iff [of "JDict kv"] by simp
  ultimately show ?thesis
    using assms(1)
    by (simp add: attempt_def try_body_def ocr_single_pdf_def log_def sleep_def Let_def)
qed

theorem empty_payload_list_is_caught_witness:
  "attempt default_config empty_list_service ''pages/page_001.pdf'' ''ocr_text/page_001.pdf.txt'' 2
       empty_world =
     (False, \<lparr>texts = Map.empty,
              logged = [LogAttempt 3 3 ''page_001.pdf'', LogException ''page_001.pdf'' IndexError],
              calls = [''pages/page_001.pdf''], sleeps = []\<rparr>)"
  using empty_payload_list_is_caught [where service = empty_list_service and w = empty_world
      and pdf_path = "''pages/page_001.pdf''" and cfg = default_config and retry = 2
      and txt_path = "''ocr_text/page_001.pdf.txt''"
      and kv = "[(''OCRExitCode'', JInt 1), (''ParsedResults'', JList [])]"]
  by (simp add: empty_list_service_def empty_list_response_def success_code_def empty_world_def
      default_config_def basename_def)

text \<open>
  Claim C6, as stated, fails: the empty list is not treated as a response that is not
  JSON is. The first is logged as an exception, with the index fault as its message and
  a pause of five seconds; the second is logged as a failure of the service, with the
  message of the invalid JSON and the growing pause.
\<close>

theorem empty_payload_list_counterexample:
  "attempt default_config empty_list_service ''pages/page_001.pdf'' ''ocr_text/page_001.pdf.txt'' 0
       empty_world =
     (False, \<lparr>texts = Map.empty,
              logged = [LogAttempt 1 3 ''page_001.pdf'', LogException ''page_001.pdf'' IndexError],
              calls = [''pages/page_001.pdf''], sleeps = [Seconds 5]\<rparr>)
   \<and> attempt default_config html_service ''pages/page_001.pdf'' ''ocr_text/page_001.pdf.txt'' 0
       empty_world =
     (False, \<lparr>texts = Map.empty,
              logged = [LogAttempt 1 3 ''page_001.pdf'',
                        LogFailed ''page_001.pdf'' (FromResponse (JStr ''Invalid JSON response'')),
                        LogWait 2],
              calls = [''pages/page_001.pdf''], sleeps = [Seconds 2]\<rparr>)"
  by (simp add: attempt_def try_body_def ocr_single_pdf_def log_def sleep_def Let_def
      empty_list_service_def empty_list_response_def html_service_def parsed_text_def
      error_message_def empty_world_def default_config_def basename_def)


section \<open>Properties of a page and of the batch\<close>

text \<open>The equations that evaluate the driver on a concrete input.\<close>

lemmas driver_eval =
  batch_process_def process_single_file_def attempt_def try_body_def ocr_single_pdf_def
  log_def sleep_def Let_def parsed_text_def write_text_def error_message_def endswith_def
  path_join_def basename_def empty_world_def default_config_def upt_rec numeral_3_eq_3 utf8_encodable_def

text \<open>
  Claim C2, as stated, fails in two ways. A response with the success code whose second
  payload alone carries text contains a parsed-text payload, but the driver reads the
  first entry only, meets the missing key, and the attempt fails with nothing written. A
  response with the success code whose first payload carries a lone surrogate contains a
  parsed-text payload too, but the text cannot be written: the attempt fails and leaves
  the text file empty.
\<close>

theorem text_payload_not_written_counterexample:
  "success_code second_payload_response \<and> has_text_payload second_payload_response
   \<and> attempt default_config second_payload_service ''pages/page_001.pdf''
        ''ocr_text/page_001.pdf.txt'' 0 empty_world =
      (False, \<lparr>texts = Map.empty,
         logged = [LogAttempt 1 3 ''page_001.pdf'', LogException ''page_001.pdf'' KeyError],
         calls = [''pages/page_001.pdf''], sleeps = [Seconds 5]\<rparr>)
   \<and> success_code surrogate_response \<and> has_text_payload surrogate_response
   \<and> attempt default_config surrogate_service ''pages/page_001.pdf''
        ''ocr_text/page_001.pdf.txt'' 0 empty_world =
      (False, \<lparr>texts = [''ocr_text/page_001.pdf.txt'' \<mapsto> []],
         logged = [LogAttempt 1 3 ''page_001.pdf'',
                   LogException ''page_001.pdf'' UnicodeEncodeError],
         calls = [''pages/page_001.pdf''], sleeps = [Seconds 5]\<rparr>)"
  by (simp add: driver_eval second_payload_service_def second_payload_response_def
      surrogate_service_def surrogate_response_def success_code_def has_text_payload_def
      parsed_payloads_def payload_text_def)

text \<open>
  Claim C4, as stated, fails when the response that succeeds cannot be written. With no
  failure before it (\<open>K = 0\<close>), the service answers the first call with the success code
  and a parsed-text payload, yet the page does not end succeeded after one call: the
  text is a lone surrogate, or sits in the second payload, every attempt raises, and the
  page ends failed after three calls.
\<close>

theorem success_response_page_fails_counterexample:
  "surrogate_service 0 ''pages/page_001.pdf'' = JsonBody surrogate_response
   \<and> success_code surrogate_response \<and> has_text_payload surrogate_response
   \<and> process_single_file default_config surrogate_service ''pages/page_001.pdf''
        ''ocr_text/page_001.pdf.txt'' empty_world =
      (False, \<lparr>texts = [''ocr_text/page_001.pdf.txt'' \<mapsto> []],
         logged = [LogAttempt 1 3 ''page_001.pdf'', LogException ''page_001.pdf'' UnicodeEncodeError,
                   LogAttempt 2 3 ''page_001.pdf'', LogException ''page_001.pdf'' UnicodeEncodeError,
                   LogAttempt 3 3 ''page_001.pdf'', LogException ''page_001.pdf'' UnicodeEncodeError,
                   LogFinalFail ''page_001.pdf''],
         calls = [''pages/page_001.pdf'', ''pages/page_001.pdf'', ''pages/page_001.pdf''],
         sleeps = [Seconds 5, Seconds 5]\<rparr>)
   \<and> second_payload_service 0 ''pages/page_001.pdf'' = JsonBody second_payload_response
   \<and> success_code second_payload_response \<and> has_text_payload second_payload_response
   \<and> process_single_file default_config second_payload_service ''pages/page_001.pdf''
        ''ocr_text/page_001.pdf.txt'' empty_world =
      (False, \<lparr>texts = Map.empty,
         logged = [LogAttempt 1 3 ''page_001.pdf'', LogException ''page_001.pdf'' KeyError,
                   LogAttempt 2 3 ''page_001.pdf'', LogException ''page_001.pdf'' KeyError,
                   LogAttempt 3 3 ''page_001.pdf'', LogException ''page_001.pdf'' KeyError,
                   LogFinalFail ''page_001.pdf''],
         calls = [''pages/page_001.pdf'', ''pages/page_001.pdf'', ''pages/page_001.pdf''],
         sleeps = [Seconds 5, Seconds 5]\<rparr>)"
  by (simp add: driver_eval second_payload_service_def second_payload_response_def
      surrogate_service_def surrogate_response_def success_code_def has_text_payload_def
      parsed_payloads_def payload_text_def)

text \<open>
  When every attempt for a page fails, \<^const>\<open>process_single_file\<close> returns
  \<^term>\<open>False\<close> after one network call for each attempt. When each of these calls fails
  before the text file is opened, no text file is created.
\<close>

lemma attempt_fails_before_write:
  assumes "fails_before_write (service (length (calls w)) pdf_path)"
  shows "\<exists>w'. attempt cfg service pdf_path txt_path retry w = (False, w')
           \<and> calls w' = calls w @ [pdf_path] \<and> texts w' = texts w"
proof (cases "service (length (calls w)) pdf_path")
  case (JsonBody r)
  show ?thesis
  proof (cases "success_code r")
    case False
    with JsonBody show ?thesis
      by (simp add: attempt_def try_body_def ocr_single_pdf_def Let_def code_success_iff)
  next
    case True
    with assms JsonBody obtain e where "parsed_text r = Inl e"
      by (auto simp: fails_before_write_def isl_def)
    with JsonBody True show ?thesis
      by (simp add: attempt_def try_body_def ocr_single_pdf_def Let_def code_success_iff)
  qed
qed (simp_all add: attempt_def try_body_def ocr_single_pdf_def Let_def)

lemma retry_loop_no_file:
  assumes "\<forall>i<length rs. fails_before_write (service (length (calls w) + i) pdf_path)"
  shows "\<exists>w'. retry_loop cfg service pdf_path txt_path rs w = (False, w')
           \<and> calls w' = calls w @ replicate (length rs) pdf_path
           \<and> texts w' = texts w
           \<and> last (logged w') = LogFinalFail (basename pdf_path)"
  using assms
proof (induction rs arbitrary: w)
  case Nil
  show ?case by simp
next
  case (Cons r rs)
  from Cons.prems have "fails_before_write (service (length (calls w)) pdf_path)"
    by auto
  from attempt_fails_before_write [where service = service and w = w and pdf_path = pdf_path
      and cfg = cfg and txt_path = txt_path and retry = r, OF this]
  obtain w1 where
    a: "attempt cfg service pdf_path txt_path r w = (False, w1)"
    and c1: "calls w1 = calls w @ [pdf_path]" and t1: "texts w1 = texts w"
    by blast
  have "\<forall>i<length rs. fails_before_write (service (length (calls w1) + i) pdf_path)"
    using Cons.prems c1 by auto
  from Cons.IH [OF this] obtain w' where
    "retry_loop cfg service pdf_path txt_path rs w1 = (False, w')"
    "calls w' = calls w1 @ replicate (length rs) pdf_path"
    "texts w' = texts w1" "last (logged w') = LogFinalFail (basename pdf_path)"
    by blast
  with a c1 t1 show ?case
    by (intro exI [of _ w']) (simp add: replicate_append_same)
qed

lemma exhausted_retries_no_file:
  assumes "texts w txt_path = None"
    and "\<forall>i<nat (max_retries cfg). fails_before_write (service (length (calls w) + i) pdf_path)"
  shows "\<exists>w'. process_single_file cfg service pdf_path txt_path w = (False, w')
           \<and> calls w' = calls w @ replicate (nat (max_retries cfg)) pdf_path
           \<and> texts w' = texts w
           \<and> last (logged w') = LogFinalFail (basename pdf_path)"
proof -
  have "\<forall>i<length [0..<nat (max_retries cfg)].
          fails_before_write (service (length (calls w) + i) pdf_path)"
    using assms(2) by simp
  from retry_loop_no_file [where service = service and w = w and pdf_path = pdf_path
      and cfg = cfg and txt_path = txt_path, OF this]
  show ?thesis using assms(1) by (simp add: process_single_file_def)
qed

lemma exhausted_retries_return_false:
  assumes "texts w txt_path = None"
    and "\<forall>i<nat (max_retries cfg). \<not> api_succeeds (service (length (calls w) + i) pdf_path)"
  shows "\<exists>w'. process_single_file cfg service pdf_path txt_path w = (False, w')
           \<and> calls w' = calls w @ replicate (nat (max_retries cfg)) pdf_path
           \<and> (texts w' = texts w \<or> texts w' = (texts w)(txt_path \<mapsto> []))"
proof -
  have "\<forall>i<length [0..<nat (max_retries cfg)].
          \<not> api_succeeds (service (length (calls w) + i) pdf_path)"
    using assms(2) by simp
  from retry_loop_failures [where service = service and w = w and pdf_path = pdf_path
      and cfg = cfg and txt_path = txt_path and rest = "[]", OF this]
  obtain w1 where "retry_loop cfg service pdf_path txt_path [0..<nat (max_retries cfg)] w
               = retry_loop cfg service pdf_path txt_path [] w1"
    "calls w1 = calls w @ replicate (nat (max_retries cfg)) pdf_path"
    "texts w1 = texts w \<or> texts w1 = (texts w)(txt_path \<mapsto> [])"
    by auto
  then show ?thesis
    using assms(1)
    by (intro exI [of _ "log (LogFinalFail (basename pdf_path)) w1"])
      (simp add: process_single_file_def)
qed


text \<open>
  Claim C3, at an input where the code departs from it. The service answers every
  attempt with the success code and a payload whose text is \<^verbatim>\<open>null\<close>: no attempt
  succeeds. \<^const>\<open>process_single_file\<close> returns \<^term>\<open>False\<close> and the batch counts the
  page as failed, but opening the text file for writing has created it, empty, before
  \<^verbatim>\<open>f.write\<close> raised. A second run then skips the page and counts it as a success.
\<close>

theorem failed_page_leaves_empty_file:
  "\<not> api_succeeds (null_text_service 0 ''pages/page_001.pdf'')
   \<and> \<not> api_succeeds (null_text_service 1 ''pages/page_001.pdf'')
   \<and> \<not> api_succeeds (null_text_service 2 ''pages/page_001.pdf'')
   \<and> process_single_file default_config null_text_service ''pages/page_001.pdf''
        ''ocr_text/page_001.pdf.txt'' empty_world =
      (False, \<lparr>texts = [''ocr_text/page_001.pdf.txt'' \<mapsto> []],
         logged = [LogAttempt 1 3 ''page_001.pdf'', LogException ''page_001.pdf'' TypeError,
                   LogAttempt 2 3 ''page_001.pdf'', LogException ''page_001.pdf'' TypeError,
                   LogAttempt 3 3 ''page_001.pdf'', LogException ''page_001.pdf'' TypeError,
                   LogFinalFail ''page_001.pdf''],
         calls = [''pages/page_001.pdf'', ''pages/page_001.pdf'', ''pages/page_001.pdf''],
         sleeps = [Seconds 5, Seconds 5]\<rparr>)
   \<and> batch_process default_config null_text_service ''pages'' [''page_001.pdf''] empty_world =
      \<lparr>texts = [''ocr_text/page_001.pdf.txt'' \<mapsto> []],
       logged = [LogStart 1, LogRule, LogProgress 1 1,
                 LogAttempt 1 3 ''page_001.pdf'', LogException ''page_001.pdf'' TypeError,
                 LogAttempt 2 3 ''page_001.pdf'', LogException ''page_001.pdf'' TypeError,
                 LogAttempt 3 3 ''page_001.pdf'', LogException ''page_001.pdf'' TypeError,
                 LogFinalFail ''page_001.pdf'',
                 LogRule, LogDone, LogSummarySuccess 0 1, LogSummaryFailed 1 1,
                 LogSavedIn ''ocr_text''],
       calls = [''pages/page_001.pdf'', ''pages/page_001.pdf'', ''pages/page_001.pdf''],
       sleeps = [Seconds 5, Seconds 5]\<rparr>
   \<and> logged (batch_process default_config null_text_service ''pages'' [''page_001.pdf'']
        (batch_process default_config null_text_service ''pages'' [''page_001.pdf''] empty_world)) =
      [LogStart 1, LogRule, LogProgress 1 1,
       LogAttempt 1 3 ''page_001.pdf'', LogException ''page_001.pdf'' TypeError,
       LogAttempt 2 3 ''page_001.pdf'', LogException ''page_001.pdf'' TypeError,
       LogAttempt 3 3 ''page_001.pdf'', LogException ''page_001.pdf'' TypeError,
       LogFinalFail ''page_001.pdf'',
       LogRule, LogDone, LogSummarySuccess 0 1, LogSummaryFailed 1 1, LogSavedIn ''ocr_text'',
       LogStart 1, LogRule, LogProgress 1 1, LogSkip ''page_001.pdf'',
       LogRule, LogDone, LogSummarySuccess 1 1, LogSummaryFailed 0 1, LogSavedIn ''ocr_text'']"
  by (simp add: driver_eval null_text_service_def null_text_response_def api_succeeds_def
      success_code_def first_payload_text_def parsed_payloads_def payload_text_def)

text \<open>
  Claim C1, as stated, fails when a page failed in the first run. The service is down for
  the three attempts of the first run and answers afterwards: the second run on the same
  directory makes a network call, writes a text file that the first run did not leave,
  and skips nothing.
\<close>

theorem rerun_after_failure_counterexample:
  "texts (batch_process default_config recovering_service ''pages'' [''page_001.pdf''] empty_world)
      ''ocr_text/page_001.pdf.txt'' = None
   \<and> calls (batch_process default_config recovering_service ''pages'' [''page_001.pdf''] empty_world)
      = [''pages/page_001.pdf'', ''pages/page_001.pdf'', ''pages/page_001.pdf'']
   \<and> texts (batch_process default_config recovering_service ''pages'' [''page_001.pdf'']
        (batch_process default_config recovering_service ''pages'' [''page_001.pdf''] empty_world))
      ''ocr_text/page_001.pdf.txt'' = Some ''hi''
   \<and> calls (batch_process default_config recovering_service ''pages'' [''page_001.pdf'']
        (batch_process default_config recovering_service ''pages'' [''page_001.pdf''] empty_world))
      = [''pages/page_001.pdf'', ''pages/page_001.pdf'', ''pages/page_001.pdf'', ''pages/page_001.pdf'']
   \<and> LogSkip ''page_001.pdf'' \<notin> set (logged
        (batch_process default_config recovering_service ''pages'' [''page_001.pdf'']
          (batch_process default_config recovering_service ''pages'' [''page_001.pdf''] empty_world)))"
  by (simp add: driver_eval recovering_service_def ok_response_def)


lemma batch_loop_all_skipped:
  assumes "\<forall>f\<in>set (map snd items). texts w (path_join (output_dir cfg) (f @ ''.txt'')) \<noteq> None"
  shows "\<exists>w'. batch_loop cfg service pdf_dir n items (s0, f0, w) = (s0 + length items, f0, w')
           \<and> texts w' = texts w \<and> calls w' = calls w
           \<and> logged w' = logged w @ concat (map (\<lambda>(idx, f).
                 [LogProgress idx n, LogSkip (basename (path_join pdf_dir f))]) items)"
  using assms
proof (induction items arbitrary: s0 w)
  case Nil
  show ?case by (intro exI [of _ w]) simp
next
  case (Cons it items)
  obtain idx pdf_file where it: "it = (idx, pdf_file)" by (cases it)
  define w3 where "w3 = (if idx < n
      then sleep SleepTime (log (LogSkip (basename (path_join pdf_dir pdf_file))) (log (LogProgress idx n) w))
      else log (LogSkip (basename (path_join pdf_dir pdf_file))) (log (LogProgress idx n) w))"
  have ex: "texts (log (LogProgress idx n) w) (path_join (output_dir cfg) (pdf_file @ ''.txt'')) \<noteq> None"
    using Cons.prems it by simp
  have step: "batch_loop cfg service pdf_dir n (it # items) (s0, f0, w)
      = batch_loop cfg service pdf_dir n items (s0 + 1, f0, w3)"
    using ex by (simp add: it process_single_file_def w3_def Let_def)
  have t3: "texts w3 = texts w" and c3: "calls w3 = calls w"
    and l3: "logged w3 = logged w @ [LogProgress idx n, LogSkip (basename (path_join pdf_dir pdf_file))]"
    by (simp_all add: w3_def)
  have "\<forall>f\<in>set (map snd items). texts w3 (path_join (output_dir cfg) (f @ ''.txt'')) \<noteq> None"
    using Cons.prems t3 by simp
  from Cons.IH [OF this, of "s0 + 1"] obtain w' where
    "batch_loop cfg service pdf_dir n items (s0 + 1, f0, w3) = (s0 + 1 + length items, f0, w')"
    "texts w' = texts w3" "calls w' = calls w3"
    "logged w' = logged w3 @ concat (map (\<lambda>(idx, f).
                 [LogProgress idx n, LogSkip (basename (path_join pdf_dir f))]) items)"
    by blast
  with step t3 c3 l3 show ?case
    by (intro exI [of _ w']) (simp add: it)
qed


text \<open>
  Claim C1, as amended. A page whose text file exists when the driver reaches it is
  skipped: \<^const>\<open>process_single_file\<close> returns \<^term>\<open>True\<close> and only appends the skip
  line to the log, so it makes no network call and leaves every file as it was. So a run
  of the batch that starts when every discovered page has its text file (a second run
  after a first one that left a text file for every page) leaves the text files
  identical, makes no network call, and logs every page as skipped, in sorted order,
  with all pages in the success count.
\<close>

theorem rerun_skips_existing_outputs:
  assumes "\<forall>f\<in>set listing. endswith f ''.pdf'' \<longrightarrow>
             texts w (path_join (output_dir cfg) (f @ ''.txt'')) \<noteq> None"
  shows "texts (batch_process cfg service pdf_dir listing w) = texts w
       \<and> calls (batch_process cfg service pdf_dir listing w) = calls w
       \<and> (let pdf_files = sort (filter (\<lambda>f. endswith f ''.pdf'') listing); n = length pdf_files
          in pdf_files \<noteq> [] \<longrightarrow>
             logged (batch_process cfg service pdf_dir listing w) =
               logged w @ [LogStart n, LogRule]
               @ concat (map (\<lambda>(idx, f). [LogProgress idx n, LogSkip (basename (path_join pdf_dir f))])
                   (enumerate 1 pdf_files))
               @ [LogRule, LogDone, LogSummarySuccess n n, LogSummaryFailed 0 n,
                  LogSavedIn (output_dir cfg)])
       \<and> (\<forall>pdf_path txt_path. texts w txt_path \<noteq> None \<longrightarrow>
            process_single_file cfg service pdf_path txt_path w =
              (True, w\<lparr>logged := logged w @ [LogSkip (basename pdf_path)]\<rparr>))"
proof -
  define pdf_files where "pdf_files = sort (filter (\<lambda>f. endswith f ''.pdf'') listing)"
  define n where "n = length pdf_files"
  define w1 where "w1 = log LogRule (log (LogStart n) w)"
  have "\<forall>f\<in>set (map snd (enumerate 1 pdf_files)).
          texts w1 (path_join (output_dir cfg) (f @ ''.txt'')) \<noteq> None"
    using assms by (simp add: pdf_files_def w1_def)
  from batch_loop_all_skipped [OF this, of service pdf_dir n 0 0] obtain w2 where
    loop: "batch_loop cfg service pdf_dir n (enumerate 1 pdf_files) (0, 0, w1) = (n, 0, w2)"
    and t2: "texts w2 = texts w1" and c2: "calls w2 = calls w1"
    and l2: "logged w2 = logged w1 @ concat (map (\<lambda>(idx, f).
                 [LogProgress idx n, LogSkip (basename (path_join pdf_dir f))]) (enumerate 1 pdf_files))"
    by (auto simp: n_def)
  have run: "batch_process cfg service pdf_dir listing w =
      (if pdf_files = [] then log (LogNoPdf pdf_dir) w
       else log (LogSavedIn (output_dir cfg)) (log (LogSummaryFailed 0 n)
              (log (LogSummarySuccess n n) (log LogDone (log LogRule w2)))))"
    using loop by (simp add: batch_process_def pdf_files_def [symmetric] n_def [symmetric]
        w1_def [symmetric] Let_def)
  have "texts (batch_process cfg service pdf_dir listing w) = texts w"
    using t2 by (simp add: run w1_def)
  moreover have "calls (batch_process cfg service pdf_dir listing w) = calls w"
    using c2 by (simp add: run w1_def)
  moreover have "pdf_files \<noteq> [] \<longrightarrow>
             logged (batch_process cfg service pdf_dir listing w) =
               logged w @ [LogStart n, LogRule]
               @ concat (map (\<lambda>(idx, f). [LogProgress idx n, LogSkip (basename (path_join pdf_dir f))])
                   (enumerate 1 pdf_files))
               @ [LogRule, LogDone, LogSummarySuccess n n, LogSummaryFailed 0 n,
                  LogSavedIn (output_dir cfg)]"
    using l2 by (simp add: run w1_def)
  moreover have "\<forall>pdf_path txt_path. texts w txt_path \<noteq> None \<longrightarrow>
            process_single_file cfg service pdf_path txt_path w =
              (True, w\<lparr>logged := logged w @ [LogSkip (basename pdf_path)]\<rparr>)"
    by (simp add: process_single_file_def log_def)
  ultimately show ?thesis
    by (simp add: pdf_files_def n_def Let_def)
qed

theorem rerun_skips_existing_outputs_witness:
  "texts (batch_process default_config down_service ''pages'' [''page_001.pdf'', ''notes.txt'']
       one_done_world) = texts one_done_world
   \<and> calls (batch_process default_config down_service ''pages'' [''page_001.pdf'', ''notes.txt'']
       one_done_world) = []
   \<and> logged (batch_process default_config down_service ''pages'' [''page_001.pdf'', ''notes.txt'']
       one_done_world) =
      [LogStart 1, LogRule, LogProgress 1 1, LogSkip ''page_001.pdf'',
       LogRule, LogDone, LogSummarySuccess 1 1, LogSummaryFailed 0 1, LogSavedIn ''ocr_text'']"
  using rerun_skips_existing_outputs [where listing = "[''page_001.pdf'', ''notes.txt'']"
      and w = one_done_world and cfg = default_config and service = down_service
      and pdf_dir = "''pages''"]
  by (simp add: one_done_world_def default_config_def endswith_def path_join_def basename_def)




section \<open>Properties of the splitter\<close>

lemma of_char_digit: "d < 10 \<Longrightarrow> (of_char (digit d) :: nat) = 48 + d"
  unfolding digit_def of_char_of by simp

lemma digits_value_snoc: "digits_value (s @ [c]) = 10 * digits_value s + (of_char c - 48)"
  by (simp add: digits_value_def)

lemma digits_value_dec: "digits_value (dec n) = n"
proof (induction n rule: dec.induct)
  case (1 n)
  show ?case
  proof (cases "n < 10")
    case True
    then have "dec n = [] @ [digit n]" by (subst dec.simps) simp
    then have "digits_value (dec n) = 10 * digits_value [] + (of_char (digit n) - 48)"
      by (simp only: digits_value_snoc)
    with True show ?thesis by (simp add: of_char_digit digits_value_def)
  next
    case False
    then have "dec n = dec (n div 10) @ [digit (n mod 10)]" by (subst dec.simps) simp
    then have "digits_value (dec n) = 10 * digits_value (dec (n div 10)) + (of_char (digit (n mod 10)) - 48)"
      by (simp only: digits_value_snoc)
    also have "\<dots> = 10 * (n div 10) + n mod 10"
      using "1.IH" [OF False] by (simp add: of_char_digit)
    finally show ?thesis by simp
  qed
qed

lemma digits_value_zeros: "digits_value (replicate k (CHR ''0'') @ s) = digits_value s"
proof -
  have "foldl (\<lambda>acc c. 10 * acc + (of_char c - 48)) (0::nat) (replicate k (CHR ''0'')) = 0"
    by (induction k) simp_all
  then show ?thesis by (simp add: digits_value_def)
qed

lemma digits_value_pad3: "digits_value (pad3 n) = n"
  by (simp add: pad3_def digits_value_zeros digits_value_dec)

lemma page_name_inj: "page_name i = page_name j \<Longrightarrow> i = j"
proof -
  assume "page_name i = page_name j"
  then have "pad3 (i + 1) = pad3 (j + 1)" by (simp add: page_name_def)
  then have "digits_value (pad3 (i + 1)) = digits_value (pad3 (j + 1))" by simp
  then show "i = j" by (simp only: digits_value_pad3 add_right_cancel)
qed

lemma path_join_page: 
  "path_join d (page_name i) = (if d = [] \<or> last d = CHR ''/'' then d else d @ ''/'') @ page_name i"
  by (simp add: path_join_def page_name_def)

lemma path_join_page_inj: "path_join d (page_name i) = path_join d (page_name j) \<Longrightarrow> i = j"
  by (rule page_name_inj) (simp add: path_join_page)

lemma split_loop_other:
  "\<forall>i<length pages. p \<noteq> path_join d (page_name (k + i)) \<Longrightarrow> split_loop d k pages fs p = fs p"
proof (induction pages arbitrary: k fs)
  case Nil
  show ?case by simp
next
  case (Cons page pages)
  have "\<forall>i<length pages. p \<noteq> path_join d (page_name (k + 1 + i))"
    using Cons.prems by (metis add.assoc add.commute length_Cons not_less_eq plus_1_eq_Suc Suc_less_eq)
  from Cons.IH [OF this] have "split_loop d (k + 1) pages (fs(path_join d (page_name k) \<mapsto> [page])) p
      = (fs(path_join d (page_name k) \<mapsto> [page])) p" .
  moreover have "p \<noteq> path_join d (page_name k)"
    using Cons.prems [rule_format, of 0] by simp
  ultimately show ?case by simp
qed

lemma split_loop_page:
  "i < length pages \<Longrightarrow> split_loop d k pages fs (path_join d (page_name (k + i))) = Some [pages ! i]"
proof (induction pages arbitrary: k fs i)
  case Nil
  then show ?case by simp
next
  case (Cons page pages)
  show ?case
  proof (cases i)
    case 0
    have "\<forall>j<length pages. path_join d (page_name k) \<noteq> path_join d (page_name (k + 1 + j))"
      using path_join_page_inj by fastforce
    from split_loop_other [OF this] show ?thesis
      using 0 by simp
  next
    case (Suc i')
    with Cons.prems have "i' < length pages" by simp
    from Cons.IH [OF this, of "k + 1"] show ?thesis
      using Suc by simp
  qed
qed

lemma length_pad3: "3 \<le> length (pad3 n)"
  by (simp add: pad3_def)

text \<open>
  Claim C9. For an input of \<open>N\<close> pages the splitter makes the output directory exist
  and returns \<open>N\<close>. For each page, in the order of the input, it writes one file in
  that directory that holds this page alone; the name of the file for the page at
  position \<open>i\<close> (from 0) is \<^verbatim>\<open>page_\<close>, a numeric suffix of at least three digits that
  denotes \<open>i + 1\<close>, and \<^verbatim>\<open>.pdf\<close>. These \<open>N\<close> paths are distinct, so exactly \<open>N\<close>
  files are written, and no other file changes.
\<close>

theorem split_pdf_one_file_per_page:
  "fst (split_pdf pages d st) = length pages
   \<and> d \<in> dirs (snd (split_pdf pages d st))
   \<and> (\<forall>i<length pages.
         pdfs (snd (split_pdf pages d st)) (path_join d (page_name i)) = Some [pages ! i])
   \<and> (\<forall>p. (\<forall>i<length pages. p \<noteq> path_join d (page_name i)) \<longrightarrow>
         pdfs (snd (split_pdf pages d st)) p = pdfs st p)
   \<and> card ((\<lambda>i. path_join d (page_name i)) ` {..<length pages}) = length pages
   \<and> (\<forall>i. page_name i = ''page_'' @ pad3 (i + 1) @ ''.pdf''
          \<and> digits_value (pad3 (i + 1)) = i + 1 \<and> 3 \<le> length (pad3 (i + 1)))"
proof (intro conjI allI impI)
  show "fst (split_pdf pages d st) = length pages"
    by (simp add: split_pdf_def Let_def)
  show "d \<in> dirs (snd (split_pdf pages d st))"
    by (simp add: split_pdf_def Let_def)
  show "pdfs (snd (split_pdf pages d st)) (path_join d (page_name i)) = Some [pages ! i]"
    if "i < length pages" for i
    using split_loop_page [OF that, of d 0] by (simp add: split_pdf_def Let_def)
  show "pdfs (snd (split_pdf pages d st)) p = pdfs st p"
    if "\<forall>i<length pages. p \<noteq> path_join d (page_name i)" for p
    using split_loop_other [of pages p d 0] that by (simp add: split_pdf_def Let_def)
  have "inj_on (\<lambda>i. path_join d (page_name i)) {..<length pages}"
    by (rule inj_onI) (rule path_join_page_inj)
  then show "card ((\<lambda>i. path_join d (page_name i)) ` {..<length pages}) = length pages"
    by (simp add: card_image)
  show "page_name i = ''page_'' @ pad3 (i + 1) @ ''.pdf''" for i
    by (simp add: page_name_def)
  show "digits_value (pad3 (i + 1)) = i + 1" for i
    by (rule digits_value_pad3)
  show "3 \<le> length (pad3 (i + 1))" for i
    by (rule length_pad3)
qed

lemma page_name_examples:
  "page_name 0 = ''page_001.pdf''" "page_name 1 = ''page_002.pdf''"
  "page_name (Suc 0) = ''page_002.pdf''"
  "page_name 100 = ''page_101.pdf''" "page_name 999 = ''page_1000.pdf''"
  by code_simp+

theorem split_pdf_one_file_per_page_witness:
  "fst (split_pdf [''first'', ''second''] ''pages'' \<lparr>dirs = {}, pdfs = Map.empty\<rparr>) = 2
   \<and> pdfs (snd (split_pdf [''first'', ''second''] ''pages'' \<lparr>dirs = {}, pdfs = Map.empty\<rparr>))
        ''pages/page_001.pdf'' = Some [''first'']
   \<and> pdfs (snd (split_pdf [''first'', ''second''] ''pages'' \<lparr>dirs = {}, pdfs = Map.empty\<rparr>))
        ''pages/page_002.pdf'' = Some [''second'']
   \<and> pdfs (snd (split_pdf [''first'', ''second''] ''pages'' \<lparr>dirs = {}, pdfs = Map.empty\<rparr>))
        ''pages/page_003.pdf'' = None"
proof -
  note T = split_pdf_one_file_per_page [where pages = "[''first'', ''second'']"
      and d = "''pages''" and st = "\<lparr>dirs = {}, pdfs = Map.empty\<rparr>"]
  have names: "path_join ''pages'' (page_name 0) = ''pages/page_001.pdf''"
    "path_join ''pages'' (page_name 1) = ''pages/page_002.pdf''"
    by (simp_all add: page_name_examples path_join_def)
  from T have c1: "fst (split_pdf [''first'', ''second''] ''pages'' \<lparr>dirs = {}, pdfs = Map.empty\<rparr>)
      = length [''first'', ''second'']"
    by (rule conjunct1)
  from T have c3: "\<forall>i<length [''first'', ''second''].
      pdfs (snd (split_pdf [''first'', ''second''] ''pages'' \<lparr>dirs = {}, pdfs = Map.empty\<rparr>))
        (path_join ''pages'' (page_name i)) = Some [[''first'', ''second''] ! i]"
    by blast
  from T have c4: "\<forall>p. (\<forall>i<length [''first'', ''second'']. p \<noteq> path_join ''pages'' (page_name i)) \<longrightarrow>
      pdfs (snd (split_pdf [''first'', ''second''] ''pages'' \<lparr>dirs = {}, pdfs = Map.empty\<rparr>)) p
        = pdfs \<lparr>dirs = {}, pdfs = Map.empty\<rparr> p"
    by blast
  have l: "(0::nat) < length [''first'', ''second'']" "(1::nat) < length [''first'', ''second'']"
    by simp_all
  have "fst (split_pdf [''first'', ''second''] ''pages'' \<lparr>dirs = {}, pdfs = Map.empty\<rparr>) = 2"
    using c1 by simp
  moreover have "pdfs (snd (split_pdf [''first'', ''second''] ''pages''
        \<lparr>dirs = {}, pdfs = Map.empty\<rparr>)) ''pages/page_001.pdf'' = Some [''first'']"
    using c3 [rule_format, OF l(1)] unfolding names by simp
  moreover have "pdfs (snd (split_pdf [''first'', ''second''] ''pages''
        \<lparr>dirs = {}, pdfs = Map.empty\<rparr>)) ''pages/page_002.pdf'' = Some [''second'']"
    using c3 [rule_format, OF l(2)] unfolding names by simp
  moreover have "\<forall>i<length [''first'', ''second'']. ''pages/page_003.pdf'' \<noteq> path_join ''pages'' (page_name i)"
  proof (intro allI impI)
    fix i assume "i < length [''first'', ''second'']"
    then have "i = 0 \<or> i = 1" by auto
    then show "''pages/page_003.pdf'' \<noteq> path_join ''pages'' (page_name i)"
      using names by auto
  qed
  with c4 have "pdfs (snd (split_pdf [''first'', ''second''] ''pages''
        \<lparr>dirs = {}, pdfs = Map.empty\<rparr>)) ''pages/page_003.pdf'' = None"
    by simp
  ultimately show ?thesis by blast
qed

lemma digit_0: "digit 0 = CHR ''0''"
  by code_simp

lemma pad3_small:
  assumes "n < 1000"
  shows "pad3 n = [digit (n div 100), digit (n div 10 mod 10), digit (n mod 10)]"
proof -
  consider "n < 10" | "10 \<le> n" "n < 100" | "100 \<le> n"
    by linarith
  then show ?thesis
  proof cases
    case 1
    then have "dec n = [digit n]" by (subst dec.simps) simp
    with 1 show ?thesis by (simp add: pad3_def digit_0 numeral_2_eq_2)
  next
    case 2
    then have "n div 10 < 10" by simp
    then have "dec (n div 10) = [digit (n div 10)]" by (subst dec.simps) simp
    with 2 have "dec n = [digit (n div 10), digit (n mod 10)]" by (subst dec.simps) simp
    with 2 show ?thesis by (simp add: pad3_def digit_0)
  next
    case 3
    with assms have a: "\<not> n div 10 < 10" "n div 10 div 10 < 10" by simp_all
    then have "dec (n div 10 div 10) = [digit (n div 10 div 10)]" by (subst dec.simps) simp
    with a have "dec (n div 10) = [digit (n div 10 div 10), digit (n div 10 mod 10)]"
      by (subst dec.simps) simp
    with 3 have "dec n = [digit (n div 10 div 10), digit (n div 10 mod 10), digit (n mod 10)]"
      by (subst dec.simps) simp
    moreover have "n div 10 div 10 = n div 100" by (simp add: div_mult2_eq)
    ultimately show ?thesis by (simp add: pad3_def)
  qed
qed

lemma digit_less: "a < 10 \<Longrightarrow> b < 10 \<Longrightarrow> (digit a < digit b) = (a < b)"
  by (simp only: less_char_def of_char_digit) simp

lemma digit_eq: "a < 10 \<Longrightarrow> b < 10 \<Longrightarrow> (digit a = digit b) = (a = b)"
proof
  assume a: "a < 10" and b: "b < 10" and e: "digit a = digit b"
  have "(of_char (digit a) :: nat) = of_char (digit b)" by (simp only: e)
  then have "48 + a = 48 + b" by (simp only: of_char_digit [OF a] of_char_digit [OF b])
  then show "a = b" by (rule add_left_imp_eq)
qed simp

lemma three_digits: "(n::nat) = 100 * (n div 100) + 10 * (n div 10 mod 10) + n mod 10"
proof -
  have "n div 100 = n div 10 div 10" by (simp add: div_mult2_eq)
  then have "n div 10 = 10 * (n div 100) + n div 10 mod 10" by simp
  moreover have "n = 10 * (n div 10) + n mod 10" by simp
  ultimately show ?thesis by linarith
qed

lemma pad3_mono:
  assumes "a < b" "b < 1000"
  shows "pad3 a < pad3 b"
proof -
  from assms have a: "a < 1000" by simp
  define x1 x2 x3 where "x1 = a div 100" and "x2 = a div 10 mod 10" and "x3 = a mod 10"
  define y1 y2 y3 where "y1 = b div 100" and "y2 = b div 10 mod 10" and "y3 = b mod 10"
  have d: "x1 < 10" "y1 < 10" "x2 < 10" "y2 < 10" "x3 < 10" "y3 < 10"
    using assms a by (simp_all add: x1_def x2_def x3_def y1_def y2_def y3_def)
  have "a = 100 * x1 + 10 * x2 + x3" "b = 100 * y1 + 10 * y2 + y3"
    unfolding x1_def x2_def x3_def y1_def y2_def y3_def by (rule three_digits)+
  with assms(1) d have "x1 < y1 \<or> x1 = y1 \<and> (x2 < y2 \<or> x2 = y2 \<and> x3 < y3)"
    by linarith
  moreover have "pad3 a = [digit x1, digit x2, digit x3]" "pad3 b = [digit y1, digit y2, digit y3]"
    unfolding x1_def x2_def x3_def y1_def y2_def y3_def
    by (rule pad3_small [OF a], rule pad3_small [OF assms(2)])
  ultimately show ?thesis
    using d by (simp add: digit_less digit_eq)
qed

lemma page_name_mono:
  assumes "i < j" "j < 999"
  shows "page_name i < page_name j"
proof -
  have lt: "pad3 (i + 1) < pad3 (j + 1)"
    using assms by (intro pad3_mono) simp_all
  obtain a1 a2 a3 where a: "pad3 (i + 1) = [a1, a2, a3]"
    using pad3_small [of "i + 1"] assms by simp
  obtain b1 b2 b3 where b: "pad3 (j + 1) = [b1, b2, b3]"
    using pad3_small [of "j + 1"] assms by simp
  from lt show ?thesis
    unfolding page_name_def a b by auto
qed

text \<open>
  Up to 999 pages every suffix has exactly three digits, and the sorted order of the
  names is the order of the pages.
\<close>

lemma names_sorted_below_1000:
  assumes "N \<le> 999"
  shows "sort (map page_name [0..<N]) = map page_name [0..<N]"
proof -
  have "sorted (map page_name [0..<N])"
    unfolding sorted_iff_nth_mono
  proof (intro allI impI)
    fix i j assume ij: "i \<le> j" and j: "j < length (map page_name [0..<N])"
    then have "i = j \<or> (i < j \<and> j < 999)" using assms by auto
    then have "page_name i \<le> page_name j"
      using page_name_mono by (auto simp: less_imp_le)
    then show "map page_name [0..<N] ! i \<le> map page_name [0..<N] ! j"
      using ij j by simp
  qed
  then show ?thesis by (rule sorted_sort_id)
qed


text \<open>
  Claim C5, at an input where the code departs from it. The width of three digits is a
  minimum, so the thousandth page gets a suffix of four digits, and its name sorts
  between those of the pages 100 and 101: for a source of 1000 pages the sorted order of
  the names is not the order of the pages.
\<close>

theorem page_1000_sorts_before_page_101:
  "page_name 999 = ''page_1000.pdf'' \<and> page_name 100 = ''page_101.pdf''
   \<and> page_name 999 < page_name 100
   \<and> sort (map page_name [0..<1000]) \<noteq> map page_name [0..<1000]"
proof -
  have less: "page_name 999 < page_name 100"
    by (simp add: page_name_examples)
  have "sort (map page_name [0..<1000]) \<noteq> map page_name [0..<1000]"
  proof
    assume "sort (map page_name [0..<1000]) = map page_name [0..<1000]"
    then have "sorted (map page_name [0..<1000])"
      by (metis sorted_sort)
    then have "map page_name [0..<1000] ! 100 \<le> map page_name [0..<1000] ! 999"
      by (rule sorted_nth_mono) simp_all
    then have "page_name 100 \<le> page_name 999" by simp
    with less show False by simp
  qed
  with less show ?thesis by (simp add: page_name_examples)
qed


end
